theory Spec2Isabelle
  imports Main
begin

section \<open>Errors raised by the views and models\<close>

text \<open>
  Every exception the modelled code can raise is a value. The string carried by an
  error is the message the source builds.
\<close>

datatype error =
    ValueError string
  | ValidationError string
  | PermissionDenied string
  | KeyError string
  | AttributeError string
  | DatabaseError string

section \<open>Root image endpoint: organisation-admin check (democracy/views/section.py)\<close>

text \<open>
  The objects reached from the serializer of an update request:
  \<open>serializer.instance.section.hearing.organization\<close> and
  \<open>request.user.admin_organizations\<close>. An organisation is identified by its id;
  a hearing without organisation has \<open>None\<close>.
\<close>

record hearing_obj =
  hearing_pk :: nat
  hearing_organization :: "nat option"

record section_obj =
  section_pk :: nat
  section_hearing :: hearing_obj

record image_obj =
  image_pk :: nat
  image_section :: section_obj
  image_title :: string

record user_obj =
  admin_organizations :: "nat list"

record request_obj =
  request_user :: user_obj

text \<open>
  The serializer of an update: the stored instance and the validated payload, whose
  \<open>section\<close> is optional on updates.
\<close>

record root_image_serializer =
  ser_instance :: image_obj
  validated_section :: "section_obj option"
  validated_title :: "string option"

text \<open>
  \<open>_is_user_organisation_admin\<close>: \<open>target_org and admin_organizations.filter(id=target_org.id).exists()\<close>.
  The Python value is used as a condition only; \<open>None\<close> is falsy.
\<close>

definition is_user_organisation_admin :: "request_obj \<Rightarrow> section_obj \<Rightarrow> bool" where
  "is_user_organisation_admin request sec =
     (case hearing_organization (section_hearing sec) of
        None \<Rightarrow> False
      | Some target_org \<Rightarrow> target_org \<in> set (admin_organizations (request_user request)))"

text \<open>\<open>super().perform_update(serializer)\<close> is \<open>serializer.save()\<close>: the validated
  fields are written onto the instance.\<close>

definition serializer_save :: "root_image_serializer \<Rightarrow> image_obj" where
  "serializer_save ser =
     (let i = ser_instance ser;
          i1 = (case validated_section ser of None \<Rightarrow> i | Some s \<Rightarrow> i\<lparr>image_section := s\<rparr>)
      in (case validated_title ser of None \<Rightarrow> i1 | Some t \<Rightarrow> i1\<lparr>image_title := t\<rparr>))"

definition perform_update :: "request_obj \<Rightarrow> root_image_serializer \<Rightarrow> error + image_obj" where
  "perform_update request ser =
     (if is_user_organisation_admin request (image_section (ser_instance ser))
      then Inr (serializer_save ser)
      else Inl (PermissionDenied ''Only organisation admin can update SectionImages''))"

section \<open>Thumbnail dimensions (democracy/views/section.py)\<close>

text \<open>
  Python strings are modelled as lists of characters with code points below 256.
  \<open>split_x\<close> is \<open>dim.split('x')\<close>: the pieces between the occurrences of the
  separator, so the result is never empty.
\<close>

fun split_x :: "string \<Rightarrow> string list" where
  "split_x [] = [[]]"
| "split_x (c # cs) =
     (if c = CHR ''x'' then [] # split_x cs
      else (case split_x cs of [] \<Rightarrow> [[c]] | p # ps \<Rightarrow> (c # p) # ps))"

text \<open>
  \<open>int(s)\<close> on a string, base 10, as CPython 3.6 to 3.10 reads it. Leading and
  trailing whitespace is skipped: the ASCII characters tab, line feed, vertical tab, form
  feed, carriage return and space, and of the code points from 128 on the Unicode
  whitespace, which below 256 is NEL (133) and the no-break space (160). The separators
  28 to 31, which \<open>str.strip\<close> removes, are not skipped. One sign may follow, then
  decimal digits, where single underscores may stand between two digits. \<open>None\<close> is the
  ValueError.
\<close>

definition is_space :: "char \<Rightarrow> bool" where
  "is_space c = ((of_char c :: nat) \<in> {9, 10, 11, 12, 13, 32, 133, 160})"

definition strip :: "string \<Rightarrow> string" where
  "strip s = rev (dropWhile is_space (rev (dropWhile is_space s)))"

definition is_digit :: "char \<Rightarrow> bool" where
  "is_digit c = (48 \<le> (of_char c :: nat) \<and> (of_char c :: nat) \<le> 57)"

definition digit_val :: "char \<Rightarrow> int" where
  "digit_val c = int (of_char c) - 48"

fun int_digits :: "int \<Rightarrow> string \<Rightarrow> int option" where
  "int_digits acc [] = Some acc"
| "int_digits acc [c] = (if is_digit c then Some (10 * acc + digit_val c) else None)"
| "int_digits acc (c # d # cs) =
     (if is_digit c then int_digits (10 * acc + digit_val c) (d # cs)
      else if c = CHR ''_'' \<and> is_digit d then int_digits (10 * acc + digit_val d) cs
      else None)"

definition int_unsigned :: "string \<Rightarrow> int option" where
  "int_unsigned s =
     (case s of [] \<Rightarrow> None
      | c # cs \<Rightarrow> if is_digit c then int_digits (digit_val c) cs else None)"

definition py_int :: "string \<Rightarrow> int option" where
  "py_int s =
     (case strip s of
        [] \<Rightarrow> None
      | c # cs \<Rightarrow>
          if c = CHR ''-'' then map_option uminus (int_unsigned cs)
          else if c = CHR ''+'' then int_unsigned cs
          else int_unsigned (c # cs))"

text \<open>
  \<open>_parse_dimension_string\<close>. The \<open>try\<close> block converts the width first and the
  height second; a ValueError of either sets both to 0. The cache decorator does not
  change the result of a call.
\<close>

definition parse_dimension_string :: "string \<Rightarrow> error + (int \<times> int)" where
  "parse_dimension_string dim =
     (case split_x dim of
        [width, height] \<Rightarrow>
          (let (w, h) = (case py_int width of
                           None \<Rightarrow> (0, 0)
                         | Some w \<Rightarrow> (case py_int height of None \<Rightarrow> (0, 0) | Some h \<Rightarrow> (w, h)))
           in if \<not> (w > 0 \<and> h > 0)
              then Inl (ValueError ''width and height must be positive integers'')
              else Inr (w, h))
      | _ \<Rightarrow> Inl (ValueError ''\"dim\" must be <width>x<height>''))"

text \<open>\<open>str(n)\<close> of a natural number: its decimal digits, used to write the
  well-formed inputs.\<close>

function str_nat :: "nat \<Rightarrow> string" where
  "str_nat n = (if n < 10 then [char_of (48 + n)] else str_nat (n div 10) @ [char_of (48 + n mod 10)])"
  by pat_completeness auto
termination by (relation "measure id") auto


section \<open>Legacy sections (kk/models/section.py)\<close>

text \<open>
  A legacy Section object: the string primary key and the hearing key are \<open>None\<close>
  until set, and Python's \<open>not\<close> treats \<open>None\<close> and the empty string alike. The
  stored rows are the saved objects.
\<close>

record legacy_section =
  ls_pk :: "string option"
  ls_hearing_id :: "string option"
  ls_ordering :: int
  ls_title :: string

definition truthy :: "string option \<Rightarrow> bool" where
  "truthy v = (case v of None \<Rightarrow> False | Some s \<Rightarrow> s \<noteq> [])"

text \<open>
  \<open>Section(id=..., hearing_id=..., ordering=..., title=...)\<close>: a keyword that is left
  out takes the field's default; the default of \<open>ordering\<close> is 0.
\<close>

definition Section_init :: "string option \<Rightarrow> string option \<Rightarrow> int option \<Rightarrow> string \<Rightarrow> legacy_section" where
  "Section_init pk hearing_id ordering_kw title =
     \<lparr>ls_pk = pk, ls_hearing_id = hearing_id,
      ls_ordering = (case ordering_kw of None \<Rightarrow> 0 | Some v \<Rightarrow> v),
      ls_title = title\<rparr>"

text \<open>\<open>self.hearing.sections.values_list("ordering", flat=True)\<close>\<close>

definition sibling_orderings :: "legacy_section \<Rightarrow> legacy_section list \<Rightarrow> int list" where
  "sibling_orderings s db = map ls_ordering (filter (\<lambda>r. ls_hearing_id r = ls_hearing_id s) db)"

text \<open>Python's \<open>max\<close> of a list; the caller never passes the empty list.\<close>

fun py_max :: "int list \<Rightarrow> int" where
  "py_max [] = 0"
| "py_max (x # xs) = fold max xs x"

text \<open>
  The parent class's \<open>save\<close> is defined in kk/models/base.py: it is taken to give a record
  without key the key \<open>new_pk\<close> and to write the row, replacing the row of the same key.
\<close>

definition super_save :: "string \<Rightarrow> legacy_section \<Rightarrow> legacy_section list \<Rightarrow> legacy_section \<times> legacy_section list" where
  "super_save new_pk s db =
     (let s' = (if truthy (ls_pk s) then s else s\<lparr>ls_pk := Some new_pk\<rparr>)
      in (s', (if \<exists>r \<in> set db. ls_pk r = ls_pk s'
               then map (\<lambda>r. if ls_pk r = ls_pk s' then s' else r) db
               else db @ [s'])))"

definition auto_ordering :: "legacy_section \<Rightarrow> bool" where
  "auto_ordering s = (\<not> truthy (ls_pk s) \<and> ls_ordering s = 0 \<and> truthy (ls_hearing_id s))"

definition Section_save :: "string \<Rightarrow> legacy_section \<Rightarrow> legacy_section list \<Rightarrow> legacy_section \<times> legacy_section list" where
  "Section_save new_pk s db =
     (let s' = (if \<not> truthy (ls_pk s) \<and> ls_ordering s = 0 \<and> truthy (ls_hearing_id s)
                then s\<lparr>ls_ordering :=
                       py_max (if sibling_orderings s db \<noteq> [] then sibling_orderings s db else [0]) + 1\<rparr>
                else s)
      in super_save new_pk s' db)"

section \<open>Legacy comments and cached counts (kk/models/scenario.py, kk/models/section.py)\<close>

text \<open>
  The store of the legacy models that carry comments. A Scenario and a legacy Section
  each cache the number of their comments; a comment names its owner.
\<close>

record commented =
  owner_id :: nat
  n_comments :: nat

record comment =
  comment_id :: "nat option"
  comment_owner :: nat
  comment_content :: string

record kk_store =
  scenarios :: "commented list"
  scenario_comments :: "comment list"
  kk_sections :: "commented list"
  section_comments :: "comment list"

text \<open>
  Writing a comment row (\<open>Model.save\<close>): a comment without id is inserted under the next
  free id, a comment with id replaces the row of that id (or is inserted under it).
\<close>

definition next_comment_id :: "comment list \<Rightarrow> nat" where
  "next_comment_id cs = Suc (fold max (map (\<lambda>c. case comment_id c of None \<Rightarrow> 0 | Some i \<Rightarrow> i) cs) 0)"

definition write_comment :: "comment \<Rightarrow> comment list \<Rightarrow> comment \<times> comment list" where
  "write_comment c cs =
     (case comment_id c of
        None \<Rightarrow> (let c' = c\<lparr>comment_id := Some (next_comment_id cs)\<rparr> in (c', cs @ [c']))
      | Some i \<Rightarrow>
          (if \<exists>r \<in> set cs. comment_id r = Some i
           then (c, map (\<lambda>r. if comment_id r = Some i then c else r) cs)
           else (c, cs @ [c])))"

text \<open>
  Modelled from the spec: \<open>recache_n_comments\<close> of the comment owner
  (defined in kk/models/base.py). The owner's cached count is recomputed
  from the comments stored for it.
\<close>

definition recache_n_comments :: "nat \<Rightarrow> comment list \<Rightarrow> commented list \<Rightarrow> commented list" where
  "recache_n_comments owner cs owners =
     map (\<lambda>r. if owner_id r = owner
               then r\<lparr>n_comments := length (filter (\<lambda>c. comment_owner c = owner) cs)\<rparr>
               else r) owners"

text \<open>\<open>scenario_n_comments_bump\<close>: \<open>instance.scenario.recache_n_comments()\<close>.\<close>

definition scenario_n_comments_bump :: "comment \<Rightarrow> kk_store \<Rightarrow> kk_store" where
  "scenario_n_comments_bump inst st =
     st\<lparr>scenarios := recache_n_comments (comment_owner inst) (scenario_comments st) (scenarios st)\<rparr>"

text \<open>
  \<open>post_save.connect(scenario_n_comments_bump, sender=ScenarioComment)\<close>: every save of a
  ScenarioComment writes the row and then runs the connected handler on the saved
  instance.
\<close>

definition ScenarioComment_save :: "comment \<Rightarrow> kk_store \<Rightarrow> comment \<times> kk_store" where
  "ScenarioComment_save c st =
     (let (c', cs) = write_comment c (scenario_comments st);
          st' = st\<lparr>scenario_comments := cs\<rparr>
      in (c', scenario_n_comments_bump c' st'))"

text \<open>
  Modelled from the spec: the class decorator \<open>recache_on_save\<close> (defined in
  kk/models/comment.py). A save of the decorated comment class writes the row and
  then recaches the comment count of the owner named by \<open>parent_field\<close>, here the
  section.
\<close>

definition SectionComment_save :: "comment \<Rightarrow> kk_store \<Rightarrow> comment \<times> kk_store" where
  "SectionComment_save c st =
     (let (c', cs) = write_comment c (section_comments st);
          st' = st\<lparr>section_comments := cs\<rparr>
      in (c', st'\<lparr>kk_sections := recache_n_comments (comment_owner c') (section_comments st') (kk_sections st')\<rparr>))"

section \<open>The store of sections, images, polls and poll options\<close>

text \<open>
  The rows the views of democracy/views/section.py read and write, with the fields those
  views touch. A translated text is the list of its (language, text) pairs.
\<close>

type_synonym translated = "(string \<times> string) list"

record section_row =
  sec_id :: nat
  sec_title :: string
  sec_published :: bool

record image_row =
  img_id :: nat
  img_section :: nat
  img_ordering :: int
  img_deleted :: bool
  img_title :: string
  img_image :: string

record poll_row =
  poll_id :: nat
  poll_section :: nat
  poll_ordering :: int
  poll_deleted :: bool
  poll_text :: translated
  poll_n_answers :: nat
  poll_is_independent :: bool

record option_row =
  opt_id :: nat
  opt_poll :: nat
  opt_ordering :: int
  opt_deleted :: bool
  opt_text :: translated
  opt_n_answers :: nat

record store =
  db_sections :: "section_row list"
  db_images :: "image_row list"
  db_polls :: "poll_row list"
  db_options :: "option_row list"

text \<open>
  An operation on the store either returns a value or raises; in both cases it leaves a
  store behind, which after an exception holds the writes made before it.
\<close>

type_synonym 'a action = "store \<Rightarrow> (error + 'a) \<times> store"

text \<open>
  \<open>@transaction.atomic()\<close>: the body runs in a transaction; when it raises, the writes
  of the body are rolled back and the exception is passed on.
\<close>

definition atomic :: "'a action \<Rightarrow> 'a action" where
  "atomic body st =
     (case body st of
        (Inl e, st') \<Rightarrow> (Inl e, st)
      | (Inr v, st') \<Rightarrow> (Inr v, st'))"

text \<open>The key the database gives a new row: one more than the largest key in use.\<close>

definition next_id :: "nat list \<Rightarrow> nat" where
  "next_id ids = Suc (fold max ids 0)"

text \<open>\<open>Model.save\<close> of an object with a key: the row of that key is replaced, or the row
  is inserted when there is none.\<close>

definition upsert :: "('r \<Rightarrow> nat) \<Rightarrow> 'r \<Rightarrow> 'r list \<Rightarrow> 'r list" where
  "upsert key x rows =
     (if \<exists>r \<in> set rows. key r = key x
      then map (\<lambda>r. if key r = key x then x else r) rows
      else rows @ [x])"

text \<open>
  What the views use and other modules define. The model manager behind
  \<open>section.images\<close>, \<open>section.polls\<close> and \<open>poll.options\<close> either lists every row or
  hides the soft-deleted ones; \<open>is_valid\<close> of the three nested serializers accepts the
  payloads the field checks of the framework accept; \<open>compare_serialized\<close> compares two
  translated texts; a new image without ordering takes the model's default.
\<close>

record env =
  hide_deleted :: bool
  image_fields_valid :: "string \<Rightarrow> string option \<Rightarrow> bool"
  option_fields_valid :: "translated option \<Rightarrow> bool"
  poll_fields_valid :: "translated option \<Rightarrow> bool"
  compare_serialized :: "translated \<Rightarrow> translated \<Rightarrow> bool"
  default_image_ordering :: int

definition section_images :: "env \<Rightarrow> nat \<Rightarrow> store \<Rightarrow> image_row list" where
  "section_images env sec st =
     filter (\<lambda>r. img_section r = sec \<and> (hide_deleted env \<longrightarrow> \<not> img_deleted r)) (db_images st)"

definition section_polls :: "env \<Rightarrow> nat \<Rightarrow> store \<Rightarrow> poll_row list" where
  "section_polls env sec st =
     filter (\<lambda>r. poll_section r = sec \<and> (hide_deleted env \<longrightarrow> \<not> poll_deleted r)) (db_polls st)"

definition poll_options :: "env \<Rightarrow> nat \<Rightarrow> store \<Rightarrow> option_row list" where
  "poll_options env poll st =
     filter (\<lambda>r. opt_poll r = poll \<and> (hide_deleted env \<longrightarrow> \<not> opt_deleted r)) (db_options st)"

text \<open>
  Modelled from the spec: \<open>soft_delete\<close> of an image, a poll and a poll option
  (defined in democracy/models/base.py). The row's deleted flag is set;
  the row stays.
\<close>

definition image_soft_delete :: "image_row \<Rightarrow> store \<Rightarrow> store" where
  "image_soft_delete x st =
     st\<lparr>db_images := map (\<lambda>r. if img_id r = img_id x then r\<lparr>img_deleted := True\<rparr> else r) (db_images st)\<rparr>"

definition poll_soft_delete :: "poll_row \<Rightarrow> store \<Rightarrow> store" where
  "poll_soft_delete x st =
     st\<lparr>db_polls := map (\<lambda>r. if poll_id r = poll_id x then r\<lparr>poll_deleted := True\<rparr> else r) (db_polls st)\<rparr>"

definition option_soft_delete :: "option_row \<Rightarrow> store \<Rightarrow> store" where
  "option_soft_delete x st =
     st\<lparr>db_options := map (\<lambda>r. if opt_id r = opt_id x then r\<lparr>opt_deleted := True\<rparr> else r) (db_options st)\<rparr>"

text \<open>\<open>if pk:\<close> on the id of a payload: a missing id, \<open>None\<close> and 0 are falsy.\<close>

definition pk_given :: "nat option \<Rightarrow> bool" where
  "pk_given pk = (case pk of None \<Rightarrow> False | Some i \<Rightarrow> i \<noteq> 0)"

subsection \<open>Payloads\<close>

text \<open>
  The dictionaries of a request. A key that may be missing is an option, and reading it
  with \<open>d[key]\<close> raises KeyError when it is. The serializer that validation stores in a
  dictionary is kept as its \<open>save\<close> method, which takes the keyword arguments of the
  call and returns the key of the saved row.
\<close>

record option_data =
  od_id :: "nat option"
  od_text :: "translated option"
  od_ordering :: "int option"
  od_serializer :: "(nat \<Rightarrow> int \<Rightarrow> nat action) option"

record poll_data =
  pd_id :: "nat option"
  pd_text :: "translated option"
  pd_options :: "option_data list option"
  pd_is_independent :: bool
  pd_ordering :: "int option"
  pd_serializer :: "(nat \<Rightarrow> int \<Rightarrow> nat action) option"

record image_data =
  imd_id :: "nat option"
  imd_title :: string
  imd_image :: "string option"
  imd_ordering :: "int option"
  imd_serializer :: "(nat \<Rightarrow> nat action) option"

record section_data =
  sd_title :: string
  sd_published :: bool
  sd_images :: "image_data list option"
  sd_questions :: "poll_data list option"

text \<open>The ids an incoming array names: those for which \<open>if pk:\<close> holds.\<close>

definition given_ids :: "nat option list \<Rightarrow> nat set" where
  "given_ids pks = {i. Some i \<in> set pks \<and> i \<noteq> 0}"

subsection \<open>Poll options: SectionPollOptionSerializer and SectionPollSerializer\<close>

text \<open>
  \<open>serializer.save(poll=poll, ordering=...)\<close> of a SectionPollOptionSerializer: with an
  instance the loaded row takes the validated text and the keyword arguments and is
  written back; without one a new row is inserted.
\<close>

definition SectionPollOptionSerializer_save ::
  "option_row option \<Rightarrow> option_data \<Rightarrow> nat \<Rightarrow> int \<Rightarrow> nat action" where
  "SectionPollOptionSerializer_save inst od poll ordering_kw st =
     (case inst of
        Some r \<Rightarrow>
          (let r' = r\<lparr>opt_text := (case od_text od of None \<Rightarrow> opt_text r | Some t \<Rightarrow> t),
                      opt_poll := poll, opt_ordering := ordering_kw\<rparr>
           in (Inr (opt_id r'), st\<lparr>db_options := upsert opt_id r' (db_options st)\<rparr>))
      | None \<Rightarrow>
          (let r' = \<lparr>opt_id = next_id (map opt_id (db_options st)), opt_poll = poll,
                     opt_ordering = ordering_kw, opt_deleted = False,
                     opt_text = (case od_text od of None \<Rightarrow> [] | Some t \<Rightarrow> t),
                     opt_n_answers = 0\<rparr>
           in (Inr (opt_id r'), st\<lparr>db_options := db_options st @ [r']\<rparr>)))"

text \<open>
  \<open>validate_options\<close>, the loop over \<open>enumerate(data)\<close> from position \<open>index\<close> on.
  \<open>self.instance\<close> is the poll being updated, or \<open>None\<close> on creation.
\<close>

fun validate_options_from ::
  "env \<Rightarrow> poll_row option \<Rightarrow> store \<Rightarrow> nat \<Rightarrow> option_data list \<Rightarrow> error + option_data list" where
  "validate_options_from env inst st index [] = Inr []"
| "validate_options_from env inst st index (od # rest) =
     (let pk = od_id od;
          option_data = od\<lparr>od_ordering := Some (int index + 1)\<rparr>;
          found = (if pk_given pk
                   then (case inst of
                           None \<Rightarrow> Inl (AttributeError ''options'')
                         | Some poll \<Rightarrow>
                             (case find (\<lambda>r. opt_id r = the pk) (poll_options env (poll_id poll) st) of
                                None \<Rightarrow> Inl (ValidationError
                                   (''The Poll does not have an option with ID '' @ str_nat (the pk)))
                              | Some option \<Rightarrow> Inr (Some option)))
                   else Inr None)
      in case found of
           Inl e \<Rightarrow> Inl e
         | Inr option \<Rightarrow>
             if \<not> option_fields_valid env (od_text option_data)
             then Inl (ValidationError ''invalid option'')
             else (case validate_options_from env inst st (Suc index) rest of
                     Inl e \<Rightarrow> Inl e
                   | Inr rest' \<Rightarrow>
                       Inr (option_data\<lparr>od_serializer :=
                              Some (SectionPollOptionSerializer_save option option_data)\<rparr> # rest')))"

definition validate_options :: "env \<Rightarrow> poll_row option \<Rightarrow> store \<Rightarrow> option_data list \<Rightarrow> error + option_data list" where
  "validate_options env inst st data = validate_options_from env inst st 0 data"

text \<open>\<open>_handle_options\<close>: the first loop saves every option and collects the keys.\<close>

fun save_options :: "nat \<Rightarrow> option_data list \<Rightarrow> nat list action" where
  "save_options poll [] st = (Inr [], st)"
| "save_options poll (option_data # rest) st =
     (case od_serializer option_data of
        None \<Rightarrow> (Inl (KeyError ''serializer''), st)
      | Some save \<Rightarrow>
          (case od_ordering option_data of
             None \<Rightarrow> (Inl (KeyError ''ordering''), st)
           | Some ordering_kw \<Rightarrow>
               (case save poll ordering_kw st of
                  (Inl e, st') \<Rightarrow> (Inl e, st')
                | (Inr option_id, st') \<Rightarrow>
                    (case save_options poll rest st' of
                       (Inl e, st'') \<Rightarrow> (Inl e, st'')
                     | (Inr ids, st'') \<Rightarrow> (Inr (option_id # ids), st'')))))"

definition handle_options :: "env \<Rightarrow> nat \<Rightarrow> option_data list \<Rightarrow> unit action" where
  "handle_options env poll data st =
     (case save_options poll data st of
        (Inl e, st') \<Rightarrow> (Inl e, st')
      | (Inr new_option_ids, st') \<Rightarrow>
          (Inr (), fold option_soft_delete
                     (filter (\<lambda>r. opt_id r \<notin> set new_option_ids) (poll_options env poll st')) st'))"

text \<open>
  \<open>serializer.save(section=section, ordering=...)\<close> of a SectionPollSerializer whose
  validated data are \<open>pd\<close> with the validated options: \<open>update\<close> when the serializer has
  an instance, \<open>create\<close> otherwise, each in its own transaction.
\<close>

definition SectionPollSerializer_create :: "env \<Rightarrow> poll_data \<Rightarrow> nat \<Rightarrow> int \<Rightarrow> nat action" where
  "SectionPollSerializer_create env pd sec ordering_kw =
     atomic (\<lambda>st.
       let options_data = (case pd_options pd of None \<Rightarrow> [] | Some os \<Rightarrow> os);
           poll = \<lparr>poll_id = next_id (map poll_id (db_polls st)), poll_section = sec,
                   poll_ordering = ordering_kw, poll_deleted = False,
                   poll_text = (case pd_text pd of None \<Rightarrow> [] | Some t \<Rightarrow> t),
                   poll_n_answers = 0, poll_is_independent = pd_is_independent pd\<rparr>;
           st1 = st\<lparr>db_polls := db_polls st @ [poll]\<rparr>
       in case handle_options env (poll_id poll) options_data st1 of
            (Inl e, st2) \<Rightarrow> (Inl e, st2)
          | (Inr u, st2) \<Rightarrow> (Inr (poll_id poll), st2))"

definition SectionPollSerializer_update :: "env \<Rightarrow> poll_row \<Rightarrow> poll_data \<Rightarrow> nat \<Rightarrow> int \<Rightarrow> nat action" where
  "SectionPollSerializer_update env inst pd sec ordering_kw =
     atomic (\<lambda>st.
       let options_data = (case pd_options pd of None \<Rightarrow> [] | Some os \<Rightarrow> os);
           poll = inst\<lparr>poll_text := (case pd_text pd of None \<Rightarrow> poll_text inst | Some t \<Rightarrow> t),
                       poll_is_independent := pd_is_independent pd,
                       poll_section := sec, poll_ordering := ordering_kw\<rparr>;
           st1 = st\<lparr>db_polls := upsert poll_id poll (db_polls st)\<rparr>
       in case handle_options env (poll_id poll) options_data st1 of
            (Inl e, st2) \<Rightarrow> (Inl e, st2)
          | (Inr u, st2) \<Rightarrow> (Inr (poll_id poll), st2))"

definition SectionPollSerializer_save :: "env \<Rightarrow> poll_row option \<Rightarrow> poll_data \<Rightarrow> nat \<Rightarrow> int \<Rightarrow> nat action" where
  "SectionPollSerializer_save env inst pd =
     (case inst of
        None \<Rightarrow> SectionPollSerializer_create env pd
      | Some poll \<Rightarrow> SectionPollSerializer_update env poll pd)"

text \<open>
  \<open>is_valid\<close> of a SectionPollSerializer built on \<open>poll_data\<close>: the list field
  \<open>options\<close> is required, the other fields are checked by the framework, and
  \<open>validate_options\<close> runs on the options. The result is the validated data.
\<close>

definition SectionPollSerializer_is_valid ::
  "env \<Rightarrow> poll_row option \<Rightarrow> store \<Rightarrow> poll_data \<Rightarrow> error + poll_data" where
  "SectionPollSerializer_is_valid env inst st pd =
     (case pd_options pd of
        None \<Rightarrow> Inl (ValidationError ''options: This field is required.'')
      | Some os \<Rightarrow>
          if \<not> poll_fields_valid env (pd_text pd) then Inl (ValidationError ''invalid poll'')
          else (case validate_options env inst st os of
                  Inl e \<Rightarrow> Inl e
                | Inr os' \<Rightarrow> Inr (pd\<lparr>pd_options := Some os'\<rparr>)))"

subsection \<open>Section create and update: SectionCreateUpdateSerializer\<close>

text \<open>
  \<open>serializer.save(section=section)\<close> of a SectionImageCreateUpdateSerializer. The
  ordering is the one of the validated data; the image content is kept when an update
  brings none.
\<close>

definition SectionImageCreateUpdateSerializer_save ::
  "env \<Rightarrow> image_row option \<Rightarrow> image_data \<Rightarrow> nat \<Rightarrow> nat action" where
  "SectionImageCreateUpdateSerializer_save env inst imd sec st =
     (case inst of
        Some r \<Rightarrow>
          (let r' = r\<lparr>img_title := imd_title imd,
                      img_image := (case imd_image imd of None \<Rightarrow> img_image r | Some c \<Rightarrow> c),
                      img_ordering := (case imd_ordering imd of None \<Rightarrow> img_ordering r | Some v \<Rightarrow> v),
                      img_section := sec\<rparr>
           in (Inr (img_id r'), st\<lparr>db_images := upsert img_id r' (db_images st)\<rparr>))
      | None \<Rightarrow>
          (let r' = \<lparr>img_id = next_id (map img_id (db_images st)), img_section = sec,
                     img_ordering = (case imd_ordering imd of None \<Rightarrow> default_image_ordering env | Some v \<Rightarrow> v),
                     img_deleted = False, img_title = imd_title imd,
                     img_image = (case imd_image imd of None \<Rightarrow> [] | Some c \<Rightarrow> c)\<rparr>
           in (Inr (img_id r'), st\<lparr>db_images := db_images st @ [r']\<rparr>)))"

text \<open>
  \<open>validate_images\<close>. \<open>self.instance\<close> is the section being updated, or \<open>None\<close> on
  creation. The image content is required unless the image serializer has an instance.
\<close>

fun validate_images_from ::
  "env \<Rightarrow> section_row option \<Rightarrow> store \<Rightarrow> nat \<Rightarrow> image_data list \<Rightarrow> error + image_data list" where
  "validate_images_from env inst st index [] = Inr []"
| "validate_images_from env inst st index (imd # rest) =
     (let pk = imd_id imd;
          image_data = imd\<lparr>imd_ordering := Some (int index)\<rparr>;
          found = (if pk_given pk
                   then (case inst of
                           None \<Rightarrow> Inl (AttributeError ''images'')
                         | Some sec \<Rightarrow>
                             (case find (\<lambda>r. img_id r = the pk) (section_images env (sec_id sec) st) of
                                None \<Rightarrow> Inl (ValidationError
                                   (''The Section does not have an image with ID '' @ str_nat (the pk)))
                              | Some image_inst \<Rightarrow> Inr (Some image_inst)))
                   else Inr None)
      in case found of
           Inl e \<Rightarrow> Inl e
         | Inr image_inst \<Rightarrow>
             if (image_inst = None \<and> imd_image image_data = None)
                \<or> \<not> image_fields_valid env (imd_title image_data) (imd_image image_data)
             then Inl (ValidationError ''invalid image'')
             else (case validate_images_from env inst st (Suc index) rest of
                     Inl e \<Rightarrow> Inl e
                   | Inr rest' \<Rightarrow>
                       Inr (image_data\<lparr>imd_serializer :=
                              Some (SectionImageCreateUpdateSerializer_save env image_inst image_data)\<rparr> # rest')))"

definition validate_images :: "env \<Rightarrow> section_row option \<Rightarrow> store \<Rightarrow> image_data list \<Rightarrow> error + image_data list" where
  "validate_images env inst st data = validate_images_from env inst st 0 data"

text \<open>\<open>_handle_images\<close>\<close>

fun save_images :: "nat \<Rightarrow> image_data list \<Rightarrow> nat list action" where
  "save_images sec [] st = (Inr [], st)"
| "save_images sec (image_data # rest) st =
     (case imd_serializer image_data of
        None \<Rightarrow> (Inl (KeyError ''serializer''), st)
      | Some save \<Rightarrow>
          (case save sec st of
             (Inl e, st') \<Rightarrow> (Inl e, st')
           | (Inr image_id, st') \<Rightarrow>
               (case save_images sec rest st' of
                  (Inl e, st'') \<Rightarrow> (Inl e, st'')
                | (Inr ids, st'') \<Rightarrow> (Inr (image_id # ids), st''))))"

definition handle_images :: "env \<Rightarrow> nat \<Rightarrow> image_data list \<Rightarrow> nat action" where
  "handle_images env sec data st =
     (case save_images sec data st of
        (Inl e, st') \<Rightarrow> (Inl e, st')
      | (Inr new_image_ids, st') \<Rightarrow>
          (Inr sec, fold image_soft_delete
                      (filter (\<lambda>r. img_id r \<notin> set new_image_ids) (section_images env sec st')) st'))"

text \<open>
  \<open>_validate_question_update\<close>. The old data are the serialized poll: its text and the
  options the manager lists. Only AssertionError is caught; a missing key of the
  payload raises KeyError.
\<close>

definition poll_has_answers_message :: "nat \<Rightarrow> string" where
  "poll_has_answers_message pk =
     ''Poll with ID '' @ str_nat pk @ '' has answers - editing it is not allowed''"

fun compare_option_texts :: "env \<Rightarrow> nat \<Rightarrow> (option_row \<times> option_data) list \<Rightarrow> error + unit" where
  "compare_option_texts env pk [] = Inr ()"
| "compare_option_texts env pk ((old_option, option) # rest) =
     (case od_text option of
        None \<Rightarrow> Inl (KeyError ''text'')
      | Some t \<Rightarrow>
          if \<not> compare_serialized env (opt_text old_option) t
          then Inl (ValidationError (poll_has_answers_message pk))
          else compare_option_texts env pk rest)"

definition validate_question_update :: "env \<Rightarrow> store \<Rightarrow> poll_data \<Rightarrow> poll_row \<Rightarrow> error + unit" where
  "validate_question_update env st poll_data poll =
     (let poll_has_answers = poll_n_answers poll > 0
      in if \<not> poll_has_answers then Inr ()
         else (let old_options = poll_options env (poll_id poll) st
               in case pd_text poll_data of
                    None \<Rightarrow> Inl (KeyError ''text'')
                  | Some t \<Rightarrow>
                      if \<not> compare_serialized env (poll_text poll) t
                      then Inl (ValidationError (poll_has_answers_message (poll_id poll)))
                      else (case pd_options poll_data of
                              None \<Rightarrow> Inl (KeyError ''options'')
                            | Some os \<Rightarrow>
                                if \<not> (length old_options = length os)
                                then Inl (ValidationError (poll_has_answers_message (poll_id poll)))
                                else compare_option_texts env (poll_id poll) (zip old_options os))))"

text \<open>\<open>validate_questions\<close>\<close>

fun validate_questions_from ::
  "env \<Rightarrow> section_row option \<Rightarrow> store \<Rightarrow> nat \<Rightarrow> poll_data list \<Rightarrow> error + poll_data list" where
  "validate_questions_from env inst st index [] = Inr []"
| "validate_questions_from env inst st index (pd # rest) =
     (let pk = pd_id pd;
          poll_data = pd\<lparr>pd_ordering := Some (int index + 1)\<rparr>;
          found = (if pk_given pk
                   then (case inst of
                           None \<Rightarrow> Inl (AttributeError ''polls'')
                         | Some sec \<Rightarrow>
                             (case find (\<lambda>r. poll_id r = the pk) (section_polls env (sec_id sec) st) of
                                None \<Rightarrow> Inl (ValidationError
                                   (''The Section does not have a poll with ID '' @ str_nat (the pk)))
                              | Some poll \<Rightarrow>
                                  (case validate_question_update env st poll_data poll of
                                     Inl e \<Rightarrow> Inl e
                                   | Inr u \<Rightarrow> Inr (Some poll))))
                   else Inr None)
      in case found of
           Inl e \<Rightarrow> Inl e
         | Inr poll \<Rightarrow>
             (case SectionPollSerializer_is_valid env poll st poll_data of
                Inl e \<Rightarrow> Inl e
              | Inr validated \<Rightarrow>
                  (case validate_questions_from env inst st (Suc index) rest of
                     Inl e \<Rightarrow> Inl e
                   | Inr rest' \<Rightarrow>
                       Inr (poll_data\<lparr>pd_serializer :=
                              Some (SectionPollSerializer_save env poll validated)\<rparr> # rest'))))"

definition validate_questions :: "env \<Rightarrow> section_row option \<Rightarrow> store \<Rightarrow> poll_data list \<Rightarrow> error + poll_data list" where
  "validate_questions env inst st data = validate_questions_from env inst st 0 data"

text \<open>\<open>_handle_questions\<close>\<close>

fun save_questions :: "nat \<Rightarrow> poll_data list \<Rightarrow> nat list action" where
  "save_questions sec [] st = (Inr [], st)"
| "save_questions sec (poll_data # rest) st =
     (case pd_serializer poll_data of
        None \<Rightarrow> (Inl (KeyError ''serializer''), st)
      | Some save \<Rightarrow>
          (case pd_ordering poll_data of
             None \<Rightarrow> (Inl (KeyError ''ordering''), st)
           | Some ordering_kw \<Rightarrow>
               (case save sec ordering_kw st of
                  (Inl e, st') \<Rightarrow> (Inl e, st')
                | (Inr new_poll_id, st') \<Rightarrow>
                    (case save_questions sec rest st' of
                       (Inl e, st'') \<Rightarrow> (Inl e, st'')
                     | (Inr ids, st'') \<Rightarrow> (Inr (new_poll_id # ids), st'')))))"

definition handle_questions :: "env \<Rightarrow> nat \<Rightarrow> poll_data list \<Rightarrow> unit action" where
  "handle_questions env sec data st =
     (case save_questions sec data st of
        (Inl e, st') \<Rightarrow> (Inl e, st')
      | (Inr new_poll_ids, st') \<Rightarrow>
          (Inr (), fold poll_soft_delete
                     (filter (\<lambda>r. poll_id r \<notin> set new_poll_ids) (section_polls env sec st')) st'))"

text \<open>
  \<open>create\<close> and \<open>update\<close> of SectionCreateUpdateSerializer. The bodies are the decorated
  functions; \<open>super().create\<close> inserts the section row with the scalar fields,
  \<open>super().update\<close> writes them onto the instance.
\<close>

definition create_body :: "env \<Rightarrow> section_data \<Rightarrow> nat action" where
  "create_body env validated_data st =
     (let images_data = (case sd_images validated_data of None \<Rightarrow> [] | Some xs \<Rightarrow> xs);
          polls_data = (case sd_questions validated_data of None \<Rightarrow> [] | Some xs \<Rightarrow> xs);
          sec = \<lparr>sec_id = next_id (map sec_id (db_sections st)),
                  sec_title = sd_title validated_data, sec_published = sd_published validated_data\<rparr>;
          st1 = st\<lparr>db_sections := db_sections st @ [sec]\<rparr>
      in case handle_images env (sec_id sec) images_data st1 of
           (Inl e, st2) \<Rightarrow> (Inl e, st2)
         | (Inr u, st2) \<Rightarrow>
             (case handle_questions env (sec_id sec) polls_data st2 of
                (Inl e, st3) \<Rightarrow> (Inl e, st3)
              | (Inr v, st3) \<Rightarrow> (Inr (sec_id sec), st3)))"

definition update_body :: "env \<Rightarrow> section_row \<Rightarrow> section_data \<Rightarrow> nat action" where
  "update_body env inst validated_data st =
     (let images_data = (case sd_images validated_data of None \<Rightarrow> [] | Some xs \<Rightarrow> xs);
          polls_data = (case sd_questions validated_data of None \<Rightarrow> [] | Some xs \<Rightarrow> xs);
          sec = inst\<lparr>sec_title := sd_title validated_data, sec_published := sd_published validated_data\<rparr>;
          st1 = st\<lparr>db_sections := upsert sec_id sec (db_sections st)\<rparr>
      in case handle_images env (sec_id sec) images_data st1 of
           (Inl e, st2) \<Rightarrow> (Inl e, st2)
         | (Inr u, st2) \<Rightarrow>
             (case handle_questions env (sec_id sec) polls_data st2 of
                (Inl e, st3) \<Rightarrow> (Inl e, st3)
              | (Inr v, st3) \<Rightarrow> (Inr (sec_id sec), st3)))"

definition SectionCreateUpdateSerializer_create :: "env \<Rightarrow> section_data \<Rightarrow> nat action" where
  "SectionCreateUpdateSerializer_create env validated_data = atomic (create_body env validated_data)"

definition SectionCreateUpdateSerializer_update :: "env \<Rightarrow> section_row \<Rightarrow> section_data \<Rightarrow> nat action" where
  "SectionCreateUpdateSerializer_update env inst validated_data = atomic (update_body env inst validated_data)"

subsection \<open>Root image endpoint: RootSectionImageSerializer.create\<close>

text \<open>
  The validated data of a root image: the section it is bound to and, when submitted,
  its ordering. \<open>super().create\<close> inserts the row; then the images of the section are
  queried, the new one among them.
\<close>

record root_image_data =
  rid_section :: nat
  rid_title :: string
  rid_image :: string
  rid_ordering :: "int option"

definition RootSectionImageSerializer_create :: "env \<Rightarrow> root_image_data \<Rightarrow> image_row action" where
  "RootSectionImageSerializer_create env validated_data =
     atomic (\<lambda>st.
       let section_image =
             \<lparr>img_id = next_id (map img_id (db_images st)), img_section = rid_section validated_data,
              img_ordering = (case rid_ordering validated_data of
                                None \<Rightarrow> default_image_ordering env | Some v \<Rightarrow> v),
              img_deleted = False, img_title = rid_title validated_data,
              img_image = rid_image validated_data\<rparr>;
           st1 = st\<lparr>db_images := db_images st @ [section_image]\<rparr>;
           images = section_images env (img_section section_image) st1
       in if images \<noteq> []
          then (let section_image' = section_image\<lparr>img_ordering := py_max (map img_ordering images) + 1\<rparr>
                in (Inr section_image', st1\<lparr>db_images := upsert img_id section_image' (db_images st1)\<rparr>))
          else (Inr section_image, st1))"

section \<open>A concrete environment and store\<close>

text \<open>
  An environment for evaluating the views on concrete requests: the manager hides
  soft-deleted rows, the framework accepts every payload, two translated texts compare
  equal when they are the same, and a new image has ordering 0 by default.
\<close>

definition example_env :: env where
  "example_env = \<lparr>hide_deleted = True, image_fields_valid = (\<lambda>t c. True),
     option_fields_valid = (\<lambda>t. True), poll_fields_valid = (\<lambda>t. True),
     compare_serialized = (\<lambda>a b. a = b), default_image_ordering = 0\<rparr>"

definition empty_store :: store where
  "empty_store = \<lparr>db_sections = [], db_images = [], db_polls = [], db_options = []\<rparr>"

definition new_option :: "string \<Rightarrow> int option \<Rightarrow> option_data" where
  "new_option t ordering_kw =
     \<lparr>od_id = None, od_text = Some [(''en'', t)], od_ordering = ordering_kw, od_serializer = None\<rparr>"

text \<open>A section with the images 1, 2 and 3, and an update that names the images 1 and 3.\<close>

definition example_section :: section_row where
  "example_section = \<lparr>sec_id = 1, sec_title = ''s'', sec_published = True\<rparr>"

definition three_images_store :: store where
  "three_images_store = empty_store\<lparr>
     db_sections := [example_section],
     db_images := [\<lparr>img_id = 1, img_section = 1, img_ordering = 0, img_deleted = False,
                     img_title = ''A'', img_image = ''a''\<rparr>,
                   \<lparr>img_id = 2, img_section = 1, img_ordering = 1, img_deleted = False,
                     img_title = ''B'', img_image = ''b''\<rparr>,
                   \<lparr>img_id = 3, img_section = 1, img_ordering = 2, img_deleted = False,
                     img_title = ''C'', img_image = ''c''\<rparr>]\<rparr>"

definition keep_images_1_3 :: "image_data list" where
  "keep_images_1_3 =
     [\<lparr>imd_id = Some 1, imd_title = ''A'', imd_image = None, imd_ordering = None, imd_serializer = None\<rparr>,
      \<lparr>imd_id = Some 3, imd_title = ''C'', imd_image = None, imd_ordering = None, imd_serializer = None\<rparr>]"

text \<open>Two new questions, each with new options, and two new images.\<close>

definition new_question :: "string \<Rightarrow> option_data list \<Rightarrow> poll_data" where
  "new_question t os =
     \<lparr>pd_id = None, pd_text = Some [(''en'', t)], pd_options = Some os, pd_is_independent = False,
      pd_ordering = Some 40, pd_serializer = None\<rparr>"

definition new_image :: "string \<Rightarrow> int option \<Rightarrow> image_data" where
  "new_image t ordering_kw =
     \<lparr>imd_id = None, imd_title = t, imd_image = Some ''content'', imd_ordering = ordering_kw,
      imd_serializer = None\<rparr>"


text \<open>
  The section with its three images, the polls 5 and 6, and the options 3 and 4 of poll 5;
  an incoming question array that names poll 5 with option 3 only.
\<close>

definition example_poll :: poll_row where
  "example_poll = \<lparr>poll_id = 5, poll_section = 1, poll_ordering = 1, poll_deleted = False,
     poll_text = [(''en'', ''P'')], poll_n_answers = 0, poll_is_independent = False\<rparr>"

definition children_store :: store where
  "children_store = three_images_store\<lparr>
     db_polls := [example_poll,
                  \<lparr>poll_id = 6, poll_section = 1, poll_ordering = 2, poll_deleted = False,
                    poll_text = [(''en'', ''Q'')], poll_n_answers = 0, poll_is_independent = False\<rparr>],
     db_options := [\<lparr>opt_id = 3, opt_poll = 5, opt_ordering = 1, opt_deleted = False,
                      opt_text = [(''en'', ''yes'')], opt_n_answers = 0\<rparr>,
                    \<lparr>opt_id = 4, opt_poll = 5, opt_ordering = 2, opt_deleted = False,
                      opt_text = [(''en'', ''no'')], opt_n_answers = 0\<rparr>]\<rparr>"

definition keep_poll_5_option_3 :: poll_data where
  "keep_poll_5_option_3 =
     \<lparr>pd_id = Some 5, pd_text = Some [(''en'', ''P'')],
      pd_options = Some [\<lparr>od_id = Some 3, od_text = Some [(''en'', ''yes'')], od_ordering = None,
                          od_serializer = None\<rparr>],
      pd_is_independent = False, pd_ordering = None, pd_serializer = None\<rparr>"
section \<open>Theorems\<close>

text \<open>
  C10. On an update through the root image endpoint the organisation-admin check reads
  the hearing of the section the stored image has before the update: the outcome is
  PermissionDenied exactly when the requester administers no organisation equal to that
  hearing's organisation, it does not depend on the section (or anything else) carried
  by the payload, and it is PermissionDenied for every requester when that hearing has
  no organisation.
\<close>

theorem perform_update_checks_stored_section:
  "(perform_update request ser = Inl (PermissionDenied ''Only organisation admin can update SectionImages'')
      \<longleftrightarrow> \<not> (\<exists>org. hearing_organization (section_hearing (image_section (ser_instance ser))) = Some org
                  \<and> org \<in> set (admin_organizations (request_user request))))
   \<and> (perform_update request ser = Inr (serializer_save ser)
      \<longleftrightarrow> (\<exists>org. hearing_organization (section_hearing (image_section (ser_instance ser))) = Some org
                  \<and> org \<in> set (admin_organizations (request_user request))))
   \<and> (isl (perform_update request (ser\<lparr>validated_section := new_section, validated_title := new_title\<rparr>))
      = isl (perform_update request ser))
   \<and> (hearing_organization (section_hearing (image_section (ser_instance ser))) = None
      \<longrightarrow> perform_update request ser
            = Inl (PermissionDenied ''Only organisation admin can update SectionImages''))"
  by (auto simp: perform_update_def is_user_organisation_admin_def split: option.splits)

theorem perform_update_checks_stored_section_witness:
  "perform_update \<lparr>request_user = \<lparr>admin_organizations = [7]\<rparr>\<rparr>
     \<lparr>ser_instance = \<lparr>image_pk = 1,
          image_section = \<lparr>section_pk = 2, section_hearing = \<lparr>hearing_pk = 3, hearing_organization = None\<rparr>\<rparr>,
          image_title = ''a''\<rparr>,
      validated_section = Some \<lparr>section_pk = 4, section_hearing = \<lparr>hearing_pk = 5, hearing_organization = Some 7\<rparr>\<rparr>,
      validated_title = None\<rparr>
   = Inl (PermissionDenied ''Only organisation admin can update SectionImages'')"
  using perform_update_checks_stored_section
    [of "\<lparr>request_user = \<lparr>admin_organizations = [7]\<rparr>\<rparr>"
        "\<lparr>ser_instance = \<lparr>image_pk = 1,
          image_section = \<lparr>section_pk = 2, section_hearing = \<lparr>hearing_pk = 3, hearing_organization = None\<rparr>\<rparr>,
          image_title = ''a''\<rparr>,
      validated_section = Some \<lparr>section_pk = 4, section_hearing = \<lparr>hearing_pk = 5, hearing_organization = Some 7\<rparr>\<rparr>,
      validated_title = None\<rparr>"]
  by simp

subsection \<open>Dimension strings\<close>

declare str_nat.simps [simp del]

lemma digit_char_props:
  assumes "d < 10"
  shows "is_digit (char_of (48 + d))" and "digit_val (char_of (48 + d)) = int d"
    and "\<not> is_space (char_of (48 + d))" and "char_of (48 + d) \<noteq> CHR ''x''"
    and "char_of (48 + d) \<noteq> CHR ''-''" and "char_of (48 + d) \<noteq> CHR ''+''"
proof -
  have m: "(48 + d) mod 256 = 48 + d" using assms by simp
  have oc: "(of_char (char_of (48 + d)) :: nat) = 48 + d" by (simp add: m)
  show "is_digit (char_of (48 + d))" unfolding is_digit_def oc using assms by simp
  show "digit_val (char_of (48 + d)) = int d" unfolding digit_val_def oc by simp
  show "\<not> is_space (char_of (48 + d))" unfolding is_space_def oc using assms by simp
  have ne: "\<And>c. (of_char c :: nat) \<noteq> 48 + d \<Longrightarrow> char_of (48 + d) \<noteq> c"
    using oc by auto
  show "char_of (48 + d) \<noteq> CHR ''x''" using assms by (intro ne) simp
  show "char_of (48 + d) \<noteq> CHR ''-''" using assms by (intro ne) simp
  show "char_of (48 + d) \<noteq> CHR ''+''" using assms by (intro ne) simp
qed

lemma is_digit_facts:
  assumes "is_digit c"
  shows "\<not> is_space c" and "c \<noteq> CHR ''x''" and "c \<noteq> CHR ''-''" and "c \<noteq> CHR ''+''"
  using assms by (auto simp: is_digit_def is_space_def)

lemma str_nat_digits: "\<forall>c \<in> set (str_nat n). is_digit c"
proof (induction n rule: str_nat.induct)
  case (1 n)
  show ?case
  proof (cases "n < 10")
    case True
    then show ?thesis by (subst str_nat.simps) (simp add: digit_char_props(1))
  next
    case False
    have "n mod 10 < 10" by simp
    then have "is_digit (char_of (48 + n mod 10))" by (rule digit_char_props(1))
    with False 1 show ?thesis by (subst str_nat.simps) simp
  qed
qed

lemma str_nat_nonempty: "str_nat n \<noteq> []"
  by (subst str_nat.simps) simp

lemma int_digits_all:
  "\<forall>c \<in> set ds. is_digit c \<Longrightarrow>
     int_digits acc ds = Some (foldl (\<lambda>a c. 10 * a + digit_val c) acc ds)"
  by (induction acc ds rule: int_digits.induct) auto

lemma int_unsigned_all:
  assumes "ds \<noteq> []" and "\<forall>c \<in> set ds. is_digit c"
  shows "int_unsigned ds = Some (foldl (\<lambda>a c. 10 * a + digit_val c) 0 ds)"
proof (cases ds)
  case Nil
  with assms show ?thesis by simp
next
  case (Cons c cs)
  with assms have "is_digit c" and "\<forall>c \<in> set cs. is_digit c" by auto
  then show ?thesis by (simp add: Cons int_unsigned_def int_digits_all)
qed

lemma str_nat_value: "foldl (\<lambda>a c. 10 * a + digit_val c) 0 (str_nat n) = int n"
proof (induction n rule: str_nat.induct)
  case (1 n)
  show ?case
  proof (cases "n < 10")
    case True
    then show ?thesis by (subst str_nat.simps) (simp add: digit_char_props(2))
  next
    case False
    have "n mod 10 < 10" by simp
    then have d: "digit_val (char_of (48 + n mod 10)) = int (n mod 10)"
      by (rule digit_char_props(2))
    have eq: "str_nat n = str_nat (n div 10) @ [char_of (48 + n mod 10)]"
      using False by (subst str_nat.simps) simp
    have ih: "foldl (\<lambda>a c. 10 * a + digit_val c) 0 (str_nat (n div 10)) = int (n div 10)"
      using 1 False by simp
    have "foldl (\<lambda>a c. 10 * a + digit_val c) 0 (str_nat n)
            = 10 * int (n div 10) + int (n mod 10)"
      unfolding eq foldl_append ih using d by simp
    also have "\<dots> = int n" by presburger
    finally show ?thesis .
  qed
qed

lemma strip_no_space:
  assumes "\<forall>c \<in> set s. \<not> is_space c"
  shows "strip s = s"
proof -
  have a: "dropWhile is_space s = s"
    using assms by (cases s) auto
  have b: "dropWhile is_space (rev s) = rev s"
    using assms by (cases "rev s") (auto simp: rev_eq_Cons_iff)
  show ?thesis by (simp add: strip_def a b)
qed

lemma py_int_str_nat: "py_int (str_nat n) = Some (int n)"
proof -
  have dg: "\<forall>c \<in> set (str_nat n). is_digit c" by (rule str_nat_digits)
  then have "\<forall>c \<in> set (str_nat n). \<not> is_space c" using is_digit_facts(1) by blast
  then have st: "strip (str_nat n) = str_nat n" by (rule strip_no_space)
  obtain c cs where cs: "str_nat n = c # cs"
    using str_nat_nonempty [of n] by (cases "str_nat n") auto
  with dg have "is_digit c" by simp
  then have "c \<noteq> CHR ''-''" and "c \<noteq> CHR ''+''" using is_digit_facts by blast+
  moreover have "strip (c # cs) = c # cs" using st cs by simp
  ultimately have "py_int (str_nat n) = int_unsigned (str_nat n)"
    by (simp add: py_int_def cs)
  also have "\<dots> = Some (int n)"
    using int_unsigned_all [OF str_nat_nonempty dg] by (simp add: str_nat_value)
  finally show ?thesis .
qed

lemma split_x_nonempty: "split_x s \<noteq> []"
  by (induction s) (auto split: list.splits)

lemma split_x_no_x: "CHR ''x'' \<notin> set s \<Longrightarrow> split_x s = [s]"
  by (induction s) auto

lemma split_x_append: "CHR ''x'' \<notin> set a \<Longrightarrow> split_x (a @ CHR ''x'' # b) = a # split_x b"
  by (induction a) auto

lemma split_x_length: "length (split_x s) = Suc (count_list s (CHR ''x''))"
  by (induction s) (auto split: list.splits)

lemma split_x_two: "CHR ''x'' \<notin> set a \<Longrightarrow> CHR ''x'' \<notin> set b \<Longrightarrow> split_x (a @ CHR ''x'' # b) = [a, b]"
  by (simp add: split_x_append split_x_no_x)

lemma int_digits_chars:
  "int_digits acc s = Some n \<Longrightarrow> \<forall>c \<in> set s. is_digit c \<or> c = CHR ''_''"
  by (induction acc s rule: int_digits.induct) (auto split: if_splits)

lemma int_unsigned_chars:
  "int_unsigned s = Some n \<Longrightarrow> \<forall>c \<in> set s. is_digit c \<or> c = CHR ''_''"
  by (cases s) (auto simp: int_unsigned_def split: if_splits dest: int_digits_chars)

lemma dropWhile_chars: "c \<in> set s \<Longrightarrow> P c \<or> c \<in> set (dropWhile P s)"
  by (induction s) auto

lemma strip_chars: "c \<in> set s \<Longrightarrow> is_space c \<or> c \<in> set (strip s)"
proof -
  assume "c \<in> set s"
  then have "is_space c \<or> c \<in> set (rev (dropWhile is_space s))"
    using dropWhile_chars [of c s is_space] by simp
  then have "is_space c \<or> c \<in> set (dropWhile is_space (rev (dropWhile is_space s)))"
    using dropWhile_chars [of c "rev (dropWhile is_space s)" is_space] by blast
  then show ?thesis by (simp add: strip_def)
qed

lemma py_int_chars:
  assumes "py_int s = Some n" and "c \<in> set s"
  shows "is_digit c \<or> is_space c \<or> c = CHR ''+'' \<or> c = CHR ''-'' \<or> c = CHR ''_''"
proof -
  have "\<forall>c \<in> set (strip s). is_digit c \<or> c = CHR ''+'' \<or> c = CHR ''-'' \<or> c = CHR ''_''"
  proof (cases "strip s")
    case Nil
    then show ?thesis by simp
  next
    case (Cons d ds)
    with assms(1) consider m where "d = CHR ''-''" "int_unsigned ds = Some m"
      | "d = CHR ''+''" "int_unsigned ds = Some n" | "int_unsigned (d # ds) = Some n"
      by (auto simp: py_int_def split: if_splits)
    then show ?thesis
    proof cases
      case 1
      then show ?thesis using int_unsigned_chars [of ds m] Cons by auto
    next
      case 2
      then show ?thesis using int_unsigned_chars [of ds n] Cons by auto
    next
      case 3
      then show ?thesis using int_unsigned_chars [of "d # ds" n] Cons by auto
    qed
  qed
  then show ?thesis using strip_chars [OF assms(2)] by blast
qed

lemma parse_two_parts:
  "CHR ''x'' \<notin> set a \<Longrightarrow> CHR ''x'' \<notin> set b \<Longrightarrow>
   parse_dimension_string (a @ CHR ''x'' # b) =
     (case (py_int a, py_int b) of
        (Some w, Some h) \<Rightarrow>
          if 0 < w \<and> 0 < h then Inr (w, h)
          else Inl (ValueError ''width and height must be positive integers'')
      | _ \<Rightarrow> Inl (ValueError ''width and height must be positive integers''))"
  by (simp add: parse_dimension_string_def split_x_two split: option.splits)

lemma parse_not_two_parts:
  "count_list dim (CHR ''x'') \<noteq> 1 \<Longrightarrow>
   parse_dimension_string dim = Inl (ValueError ''\"dim\" must be <width>x<height>'')"
proof -
  assume "count_list dim (CHR ''x'') \<noteq> 1"
  then have "length (split_x dim) \<noteq> 2" by (simp add: split_x_length)
  then show ?thesis by (auto simp: parse_dimension_string_def split: list.splits)
qed

text \<open>
  C4. \<open>_parse_dimension_string\<close> fails with the message about the format unless the
  string has exactly one \<open>x\<close>. With exactly one, the pieces before and after it are
  converted: when both are integers and both are positive it returns that pair, and in
  every other case, one piece not an integer (both values are then 0) or a value not
  positive, it fails with the message about positive integers; a piece with a character
  that is no digit, whitespace, sign or underscore is never an integer. For positive w
  and h the decimal string of w, an x and the decimal string of h parses to exactly
  (w, h).
\<close>

theorem parse_dimension_string_spec:
  "(count_list dim (CHR ''x'') \<noteq> 1 \<longrightarrow>
      parse_dimension_string dim = Inl (ValueError ''\"dim\" must be <width>x<height>''))
   \<and> (CHR ''x'' \<notin> set a \<and> CHR ''x'' \<notin> set b \<longrightarrow>
      parse_dimension_string (a @ ''x'' @ b) =
        (case (py_int a, py_int b) of
           (Some w, Some h) \<Rightarrow>
             if 0 < w \<and> 0 < h then Inr (w, h)
             else Inl (ValueError ''width and height must be positive integers'')
         | _ \<Rightarrow> Inl (ValueError ''width and height must be positive integers'')))
   \<and> (CHR ''x'' \<notin> set a \<and> CHR ''x'' \<notin> set b
        \<and> (\<exists>c \<in> set a \<union> set b. \<not> is_digit c \<and> \<not> is_space c
               \<and> c \<noteq> CHR ''+'' \<and> c \<noteq> CHR ''-'' \<and> c \<noteq> CHR ''_'') \<longrightarrow>
      parse_dimension_string (a @ ''x'' @ b)
        = Inl (ValueError ''width and height must be positive integers''))
   \<and> (0 < m \<and> 0 < n \<longrightarrow>
      parse_dimension_string (str_nat m @ ''x'' @ str_nat n) = Inr (int m, int n))"
proof (intro conjI impI)
  assume "count_list dim (CHR ''x'') \<noteq> 1"
  then show "parse_dimension_string dim = Inl (ValueError ''\"dim\" must be <width>x<height>'')"
    by (rule parse_not_two_parts)
next
  assume "CHR ''x'' \<notin> set a \<and> CHR ''x'' \<notin> set b"
  then show "parse_dimension_string (a @ ''x'' @ b) =
        (case (py_int a, py_int b) of
           (Some w, Some h) \<Rightarrow>
             if 0 < w \<and> 0 < h then Inr (w, h)
             else Inl (ValueError ''width and height must be positive integers'')
         | _ \<Rightarrow> Inl (ValueError ''width and height must be positive integers''))"
    by (simp add: parse_two_parts)
next
  assume h: "CHR ''x'' \<notin> set a \<and> CHR ''x'' \<notin> set b
        \<and> (\<exists>c \<in> set a \<union> set b. \<not> is_digit c \<and> \<not> is_space c
               \<and> c \<noteq> CHR ''+'' \<and> c \<noteq> CHR ''-'' \<and> c \<noteq> CHR ''_'')"
  then obtain c where c: "c \<in> set a \<or> c \<in> set b" "\<not> is_digit c" "\<not> is_space c"
    "c \<noteq> CHR ''+''" "c \<noteq> CHR ''-''" "c \<noteq> CHR ''_''" by auto
  have "py_int a = None \<or> py_int b = None"
  proof (rule ccontr)
    assume "\<not> (py_int a = None \<or> py_int b = None)"
    then obtain i j where "py_int a = Some i" "py_int b = Some j" by auto
    then show False using c py_int_chars [of a i c] py_int_chars [of b j c] by blast
  qed
  then show "parse_dimension_string (a @ ''x'' @ b)
        = Inl (ValueError ''width and height must be positive integers'')"
    using h by (auto simp: parse_two_parts split: option.splits)
next
  assume "0 < m \<and> 0 < n"
  moreover have "CHR ''x'' \<notin> set (str_nat m)" and "CHR ''x'' \<notin> set (str_nat n)"
    using str_nat_digits is_digit_facts(2) by blast+
  ultimately show "parse_dimension_string (str_nat m @ ''x'' @ str_nat n) = Inr (int m, int n)"
    by (simp add: parse_two_parts py_int_str_nat)
qed

theorem parse_dimension_string_spec_witness:
  "parse_dimension_string ''640x480'' = Inr (640, 480)
   \<and> parse_dimension_string ''640'' = Inl (ValueError ''\"dim\" must be <width>x<height>'')
   \<and> parse_dimension_string ''640x480x10'' = Inl (ValueError ''\"dim\" must be <width>x<height>'')
   \<and> parse_dimension_string ''0x480'' = Inl (ValueError ''width and height must be positive integers'')
   \<and> parse_dimension_string ''-1x10'' = Inl (ValueError ''width and height must be positive integers'')
   \<and> parse_dimension_string ''abcxdef'' = Inl (ValueError ''width and height must be positive integers'')
   \<and> parse_dimension_string (CHR 0x1F # ''2x3'') = Inl (ValueError ''width and height must be positive integers'')"
proof -
  have s: "str_nat 640 = ''640''" "str_nat 480 = ''480''" by code_simp+
  have p: "py_int ''0'' = Some 0" "py_int ''480'' = Some 480" "py_int ''-1'' = Some (- 1)"
    "py_int ''10'' = Some 10" by code_simp+
  have q: "\<not> is_digit (CHR ''a'')" "\<not> is_space (CHR ''a'')"
    "\<not> is_digit (CHR 0x1F)" "\<not> is_space (CHR 0x1F)"
    by (simp_all add: is_digit_def is_space_def)
  have a: "parse_dimension_string ''640x480'' = Inr (640, 480)"
    using parse_dimension_string_spec [where m = 640 and n = 480] s by simp
  have b: "parse_dimension_string ''640'' = Inl (ValueError ''\"dim\" must be <width>x<height>'')"
    using parse_dimension_string_spec [where dim = "''640''"] by simp
  have c: "parse_dimension_string ''640x480x10'' = Inl (ValueError ''\"dim\" must be <width>x<height>'')"
    using parse_dimension_string_spec [where dim = "''640x480x10''"] by simp
  have d: "parse_dimension_string ''0x480'' = Inl (ValueError ''width and height must be positive integers'')"
    using parse_dimension_string_spec [where a = "''0''" and b = "''480''"] p by simp
  have e: "parse_dimension_string ''-1x10'' = Inl (ValueError ''width and height must be positive integers'')"
    using parse_dimension_string_spec [where a = "''-1''" and b = "''10''"] p by simp
  have f: "parse_dimension_string ''abcxdef'' = Inl (ValueError ''width and height must be positive integers'')"
  proof -
    have "\<exists>c \<in> set ''abc'' \<union> set ''def''. \<not> is_digit c \<and> \<not> is_space c
               \<and> c \<noteq> CHR ''+'' \<and> c \<noteq> CHR ''-'' \<and> c \<noteq> CHR ''_''"
      by (rule bexI [of _ "CHR ''a''"]) (simp_all add: q)
    moreover have "CHR ''x'' \<notin> set ''abc''" "CHR ''x'' \<notin> set ''def''" by simp_all
    ultimately have "parse_dimension_string (''abc'' @ ''x'' @ ''def'')
        = Inl (ValueError ''width and height must be positive integers'')"
      by (intro mp [OF parse_dimension_string_spec
            [where a = "''abc''" and b = "''def''", THEN conjunct2, THEN conjunct2, THEN conjunct1]] conjI)
    then show ?thesis by simp
  qed
  have g: "parse_dimension_string (CHR 0x1F # ''2x3'') = Inl (ValueError ''width and height must be positive integers'')"
  proof -
    have "\<exists>c \<in> set (CHR 0x1F # ''2'') \<union> set ''3''. \<not> is_digit c \<and> \<not> is_space c
               \<and> c \<noteq> CHR ''+'' \<and> c \<noteq> CHR ''-'' \<and> c \<noteq> CHR ''_''"
      by (rule bexI [of _ "CHR 0x1F"]) (simp_all add: q)
    moreover have "CHR ''x'' \<notin> set (CHR 0x1F # ''2'')" "CHR ''x'' \<notin> set ''3''" by simp_all
    ultimately have "parse_dimension_string ((CHR 0x1F # ''2'') @ ''x'' @ ''3'')
        = Inl (ValueError ''width and height must be positive integers'')"
      by (intro mp [OF parse_dimension_string_spec
            [where a = "CHR 0x1F # ''2''" and b = "''3''", THEN conjunct2, THEN conjunct2, THEN conjunct1]] conjI)
    then show ?thesis by simp
  qed
  show ?thesis by (intro conjI a b c d e f g)
qed

subsection \<open>Legacy section ordering\<close>

lemma super_save_ordering: "ls_ordering (fst (super_save new_pk s db)) = ls_ordering s"
  by (simp add: super_save_def Let_def)

lemma super_save_pk: "new_pk \<noteq> [] \<Longrightarrow> truthy (ls_pk (fst (super_save new_pk s db)))"
  by (simp add: super_save_def Let_def truthy_def)

lemma Section_save_pk: "new_pk \<noteq> [] \<Longrightarrow> truthy (ls_pk (fst (Section_save new_pk s db)))"
  by (simp add: Section_save_def Let_def super_save_pk)

lemma Section_save_ordering:
  "ls_ordering (fst (Section_save new_pk s db)) =
     (if auto_ordering s
      then py_max (if sibling_orderings s db \<noteq> [] then sibling_orderings s db else [0]) + 1
      else ls_ordering s)"
  by (simp add: Section_save_def Let_def super_save_ordering auto_ordering_def)

text \<open>
  C8 (as stated). The claim lets the automatic ordering happen only when no ordering was
  supplied; a new section built with the explicit ordering 0 under a hearing without
  sections is nevertheless saved with ordering 1.
\<close>

theorem Section_save_explicit_zero_counterexample:
  "ls_ordering (Section_init None (Some ''h'') (Some 0) ''t'') = 0
   \<and> ls_ordering (fst (Section_save ''a'' (Section_init None (Some ''h'') (Some 0) ''t'') [])) = 1"
  by (simp add: Section_init_def Section_save_def super_save_def sibling_orderings_def truthy_def Let_def)

text \<open>
  C8 (amended). A save assigns an ordering automatically exactly when the record has no
  primary key yet, its ordering is 0 (the field's default, whether left out or supplied
  as 0) and a hearing is associated; the value is the maximum of the sibling orderings
  of the same hearing (of the list containing 0 when there are none) plus one, so the
  first section of a hearing gets 1. Any other save keeps the ordering, in particular an
  explicit 10 stays 10, and once a record has been saved it has a key, so a later save
  in any state of the store assigns nothing.
\<close>

theorem Section_save_auto_ordering:
  "ls_ordering (fst (Section_save new_pk s db)) =
     (if \<not> truthy (ls_pk s) \<and> ls_ordering s = 0 \<and> truthy (ls_hearing_id s)
      then py_max (if sibling_orderings s db \<noteq> [] then sibling_orderings s db else [0]) + 1
      else ls_ordering s)
   \<and> (\<not> truthy (ls_pk s) \<and> ls_ordering s = 0 \<and> truthy (ls_hearing_id s) \<and> sibling_orderings s db = []
        \<longrightarrow> ls_ordering (fst (Section_save new_pk s db)) = 1)
   \<and> (ls_ordering s = 10 \<longrightarrow> ls_ordering (fst (Section_save new_pk s db)) = 10)
   \<and> (new_pk \<noteq> [] \<longrightarrow>
        ls_ordering (fst (Section_save new_pk' (fst (Section_save new_pk s db)) db'))
          = ls_ordering (fst (Section_save new_pk s db)))"
proof (intro conjI impI)
  show a: "ls_ordering (fst (Section_save new_pk s db)) =
     (if \<not> truthy (ls_pk s) \<and> ls_ordering s = 0 \<and> truthy (ls_hearing_id s)
      then py_max (if sibling_orderings s db \<noteq> [] then sibling_orderings s db else [0]) + 1
      else ls_ordering s)"
    using Section_save_ordering [of new_pk s db] by (simp add: auto_ordering_def)
  show "ls_ordering (fst (Section_save new_pk s db)) = 1"
    if "\<not> truthy (ls_pk s) \<and> ls_ordering s = 0 \<and> truthy (ls_hearing_id s) \<and> sibling_orderings s db = []"
    using that a by simp
  show "ls_ordering (fst (Section_save new_pk s db)) = 10" if "ls_ordering s = 10"
    using that a by simp
  show "ls_ordering (fst (Section_save new_pk' (fst (Section_save new_pk s db)) db'))
          = ls_ordering (fst (Section_save new_pk s db))" if "new_pk \<noteq> []"
    using Section_save_pk [OF that, of s db]
    by (simp add: Section_save_ordering auto_ordering_def)
qed

theorem Section_save_auto_ordering_witness:
  "ls_ordering (fst (Section_save ''a'' (Section_init None (Some ''h'') None ''first'') [])) = 1
   \<and> ls_ordering (fst (Section_save ''e''
          (fst (Section_save ''a'' (Section_init None (Some ''h'') None ''first'') [])) [])) = 1
   \<and> (let new = Section_init None (Some ''h'') None;
        (s1, db1) = Section_save ''a'' (new ''first'') [];
        (s2, db2) = Section_save ''b'' (new ''second'') db1;
        (s3, db3) = Section_save ''c'' (new ''third'') db2;
        (s4, db4) = Section_save ''d'' (Section_init None (Some ''h'') (Some 10) ''fourth'') db3;
        (s5, db5) = Section_save ''e'' s1 db4
    in map ls_ordering [s1, s2, s3, s4, s5] = [1, 2, 3, 10, 1]
       \<and> map ls_ordering db5 = [1, 2, 3, 10])"
proof (intro conjI)
  have h: "\<not> truthy (ls_pk (Section_init None (Some ''h'') None ''first''))
      \<and> ls_ordering (Section_init None (Some ''h'') None ''first'') = 0
      \<and> truthy (ls_hearing_id (Section_init None (Some ''h'') None ''first''))
      \<and> sibling_orderings (Section_init None (Some ''h'') None ''first'') [] = []"
    by (simp add: Section_init_def sibling_orderings_def truthy_def)
  show "ls_ordering (fst (Section_save ''a'' (Section_init None (Some ''h'') None ''first'') [])) = 1"
    using Section_save_auto_ordering [of "''a''" "Section_init None (Some ''h'') None ''first''" "[]"] h
    by blast
  then show "ls_ordering (fst (Section_save ''e''
          (fst (Section_save ''a'' (Section_init None (Some ''h'') None ''first'') [])) [])) = 1"
    using Section_save_auto_ordering
      [of "''a''" "Section_init None (Some ''h'') None ''first''" "[]" "''e''" "[]"]
    by simp
  show "(let new = Section_init None (Some ''h'') None;
        (s1, db1) = Section_save ''a'' (new ''first'') [];
        (s2, db2) = Section_save ''b'' (new ''second'') db1;
        (s3, db3) = Section_save ''c'' (new ''third'') db2;
        (s4, db4) = Section_save ''d'' (Section_init None (Some ''h'') (Some 10) ''fourth'') db3;
        (s5, db5) = Section_save ''e'' s1 db4
    in map ls_ordering [s1, s2, s3, s4, s5] = [1, 2, 3, 10, 1]
       \<and> map ls_ordering db5 = [1, 2, 3, 10])"
    by code_simp
qed

subsection \<open>Cached comment counts\<close>

lemma recache_n_comments_owner:
  "r \<in> set (recache_n_comments owner cs owners) \<Longrightarrow> owner_id r = owner \<Longrightarrow>
     n_comments r = length (filter (\<lambda>c. comment_owner c = owner) cs)"
proof -
  assume "r \<in> set (recache_n_comments owner cs owners)" and o: "owner_id r = owner"
  then obtain x where "x \<in> set owners"
    and r: "r = (if owner_id x = owner
                 then x\<lparr>n_comments := length (filter (\<lambda>c. comment_owner c = owner) cs)\<rparr> else x)"
    by (auto simp: recache_n_comments_def)
  show ?thesis
  proof (cases "owner_id x = owner")
    case True
    then show ?thesis by (simp add: r)
  next
    case False
    then show ?thesis using o by (simp add: r)
  qed
qed

lemma write_comment_owner: "comment_owner (fst (write_comment c cs)) = comment_owner c"
  by (simp add: write_comment_def Let_def split: option.splits)

lemma write_comment_member: "fst (write_comment c cs) \<in> set (snd (write_comment c cs))"
  by (auto simp: write_comment_def Let_def split: option.splits)

text \<open>
  C9. After any save of a ScenarioComment the owning Scenario's cached count equals the
  number of comments stored for it, the saved one among them, and likewise for a legacy
  SectionComment and its Section; the save itself does the recount.
\<close>

theorem comment_save_recaches_owner:
  "(\<forall>r \<in> set (scenarios (snd (ScenarioComment_save c st))).
      owner_id r = comment_owner c \<longrightarrow>
        n_comments r = length (filter (\<lambda>x. comment_owner x = comment_owner c)
                                 (scenario_comments (snd (ScenarioComment_save c st)))))
   \<and> fst (ScenarioComment_save c st) \<in> set (scenario_comments (snd (ScenarioComment_save c st)))
   \<and> (\<forall>r \<in> set (kk_sections (snd (SectionComment_save c st))).
      owner_id r = comment_owner c \<longrightarrow>
        n_comments r = length (filter (\<lambda>x. comment_owner x = comment_owner c)
                                 (section_comments (snd (SectionComment_save c st)))))
   \<and> fst (SectionComment_save c st) \<in> set (section_comments (snd (SectionComment_save c st)))"
proof -
  obtain c' cs where w: "write_comment c (scenario_comments st) = (c', cs)"
    by (cases "write_comment c (scenario_comments st)")
  obtain d' ds where v: "write_comment c (section_comments st) = (d', ds)"
    by (cases "write_comment c (section_comments st)")
  have oc: "comment_owner c' = comment_owner c" using write_comment_owner [of c "scenario_comments st"] w by simp
  have od: "comment_owner d' = comment_owner c" using write_comment_owner [of c "section_comments st"] v by simp
  have mc: "c' \<in> set cs" using write_comment_member [of c "scenario_comments st"] w by simp
  have md: "d' \<in> set ds" using write_comment_member [of c "section_comments st"] v by simp
  show ?thesis
    using oc od mc md
    by (auto simp: ScenarioComment_save_def SectionComment_save_def scenario_n_comments_bump_def
        w v dest: recache_n_comments_owner)
qed

theorem comment_save_recaches_owner_witness:
  "map n_comments (scenarios (snd (ScenarioComment_save
       \<lparr>comment_id = None, comment_owner = 1, comment_content = ''c''\<rparr>
       \<lparr>scenarios = [\<lparr>owner_id = 1, n_comments = 2\<rparr>],
        scenario_comments = [\<lparr>comment_id = Some 1, comment_owner = 1, comment_content = ''a''\<rparr>,
                             \<lparr>comment_id = Some 2, comment_owner = 1, comment_content = ''b''\<rparr>],
        kk_sections = [\<lparr>owner_id = 1, n_comments = 0\<rparr>], section_comments = []\<rparr>))) = [3]
   \<and> map n_comments (kk_sections (snd (SectionComment_save
       \<lparr>comment_id = None, comment_owner = 1, comment_content = ''c''\<rparr>
       \<lparr>scenarios = [\<lparr>owner_id = 1, n_comments = 2\<rparr>],
        scenario_comments = [\<lparr>comment_id = Some 1, comment_owner = 1, comment_content = ''a''\<rparr>,
                             \<lparr>comment_id = Some 2, comment_owner = 1, comment_content = ''b''\<rparr>],
        kk_sections = [\<lparr>owner_id = 1, n_comments = 0\<rparr>], section_comments = []\<rparr>))) = [1]"
  using comment_save_recaches_owner
    [of "\<lparr>comment_id = None, comment_owner = 1, comment_content = ''c''\<rparr>"
        "\<lparr>scenarios = [\<lparr>owner_id = 1, n_comments = 2\<rparr>],
        scenario_comments = [\<lparr>comment_id = Some 1, comment_owner = 1, comment_content = ''a''\<rparr>,
                             \<lparr>comment_id = Some 2, comment_owner = 1, comment_content = ''b''\<rparr>],
        kk_sections = [\<lparr>owner_id = 1, n_comments = 0\<rparr>], section_comments = []\<rparr>"]
  by (simp add: ScenarioComment_save_def SectionComment_save_def scenario_n_comments_bump_def
      write_comment_def next_comment_id_def recache_n_comments_def Let_def)

subsection \<open>Fresh keys and writes by key\<close>

lemma fold_max_ge: "(a::nat) \<le> fold max xs a"
  by (induction xs arbitrary: a) (auto intro: order_trans [OF max.cobounded2])

lemma fold_max_mem: "(x::nat) \<in> set xs \<Longrightarrow> x \<le> fold max xs a"
proof (induction xs arbitrary: a)
  case Nil
  then show ?case by simp
next
  case (Cons y ys)
  show ?case
  proof (cases "x = y")
    case True
    have "max y a \<le> fold max ys (max y a)" by (rule fold_max_ge)
    then show ?thesis using True by simp
  next
    case False
    with Cons show ?thesis by simp
  qed
qed

lemma next_id_fresh: "next_id ids \<notin> set ids"
  using fold_max_mem [of "next_id ids" ids 0] by (auto simp: next_id_def)

lemma next_id_pos: "0 < next_id ids"
  by (simp add: next_id_def)

lemma upsert_keys: "set (map key (upsert key x rows)) = insert (key x) (set (map key rows))"
  by (auto simp: upsert_def image_iff)

lemma upsert_last:
  "key x \<notin> key ` set rows \<Longrightarrow> key y = key x \<Longrightarrow> upsert key y (rows @ [x]) = rows @ [y]"
  by (auto simp: upsert_def image_iff intro!: map_idI)

subsection \<open>Ordering of an image created at the root endpoint\<close>

lemma py_max_snoc: "xs \<noteq> [] \<Longrightarrow> py_max (xs @ [y]) = max (py_max xs) y"
  by (cases xs) (simp_all add: max.commute)

lemma root_create_result:
  "RootSectionImageSerializer_create env vd st =
     (let own = (case rid_ordering vd of None \<Rightarrow> default_image_ordering env | Some v \<Rightarrow> v);
          created = \<lparr>img_id = next_id (map img_id (db_images st)), img_section = rid_section vd,
                     img_ordering = py_max (map img_ordering (section_images env (rid_section vd) st) @ [own]) + 1,
                     img_deleted = False, img_title = rid_title vd, img_image = rid_image vd\<rparr>
      in (Inr created, st\<lparr>db_images := db_images st @ [created]\<rparr>))"
proof -
  have f: "next_id (map img_id (db_images st)) \<notin> img_id ` set (db_images st)"
    using next_id_fresh [of "map img_id (db_images st)"] by simp
  show ?thesis
    unfolding RootSectionImageSerializer_create_def atomic_def
    by (simp add: Let_def section_images_def upsert_last f)
qed

text \<open>
  C3 (as stated). The claim lets the ordering of a new image stay as submitted when its
  section has no image yet; an image submitted with ordering 5 to a section without
  images is stored with ordering 6, and one submitted without ordering, the default
  being 0, with ordering 1.
\<close>

theorem root_create_first_image_counterexample:
  "section_images example_env 1 empty_store = []
   \<and> map img_ordering (db_images (snd (RootSectionImageSerializer_create example_env
        \<lparr>rid_section = 1, rid_title = ''t'', rid_image = ''i'', rid_ordering = Some 5\<rparr> empty_store))) = [6]
   \<and> map img_ordering (db_images (snd (RootSectionImageSerializer_create example_env
        \<lparr>rid_section = 1, rid_title = ''t'', rid_image = ''i'', rid_ordering = None\<rparr> empty_store))) = [1]"
  by (simp add: root_create_result section_images_def empty_store_def example_env_def Let_def)

text \<open>
  C3 (amended). An image created through the root endpoint is stored, as a new row, with
  the ordering one more than the maximum over the orderings of the images the manager
  lists for its section before the creation together with the new image's own submitted
  or default ordering. So it is one more than the maximum of the existing orderings
  whenever the section has images and the own ordering does not exceed that maximum, and
  it is the own ordering plus one when the section has no image.
\<close>

theorem root_create_ordering:
  "(let own = (case rid_ordering vd of None \<Rightarrow> default_image_ordering env | Some v \<Rightarrow> v);
        existing = map img_ordering (section_images env (rid_section vd) st);
        (result, st') = RootSectionImageSerializer_create env vd st
    in (\<exists>created. result = Inr created
          \<and> db_images st' = db_images st @ [created]
          \<and> img_section created = rid_section vd
          \<and> img_ordering created = py_max (existing @ [own]) + 1
          \<and> (existing \<noteq> [] \<and> own \<le> py_max existing \<longrightarrow> img_ordering created = py_max existing + 1)
          \<and> (existing = [] \<longrightarrow> img_ordering created = own + 1)))"
proof -
  have a: "existing \<noteq> [] \<Longrightarrow> own \<le> py_max existing \<Longrightarrow> py_max (existing @ [own]) = py_max existing"
    for existing and own :: int
    by (simp add: py_max_snoc)
  show ?thesis
    by (auto simp: root_create_result Let_def a)
qed

theorem root_create_ordering_witness:
  "(let st = empty_store\<lparr>db_images :=
              [\<lparr>img_id = 1, img_section = 1, img_ordering = 1, img_deleted = False, img_title = ''a'', img_image = ''x''\<rparr>,
               \<lparr>img_id = 2, img_section = 1, img_ordering = 2, img_deleted = False, img_title = ''b'', img_image = ''y''\<rparr>,
               \<lparr>img_id = 3, img_section = 1, img_ordering = 5, img_deleted = False, img_title = ''c'', img_image = ''z''\<rparr>]\<rparr>;
        vd = \<lparr>rid_section = 1, rid_title = ''t'', rid_image = ''i'', rid_ordering = None\<rparr>
    in map img_ordering (db_images (snd (RootSectionImageSerializer_create example_env vd st))) = [1, 2, 5, 6])"
  using root_create_ordering [where
      vd = "\<lparr>rid_section = 1, rid_title = ''t'', rid_image = ''i'', rid_ordering = None\<rparr>"
      and env = example_env and st =
      "empty_store\<lparr>db_images :=
              [\<lparr>img_id = 1, img_section = 1, img_ordering = 1, img_deleted = False, img_title = ''a'', img_image = ''x''\<rparr>,
               \<lparr>img_id = 2, img_section = 1, img_ordering = 2, img_deleted = False, img_title = ''b'', img_image = ''y''\<rparr>,
               \<lparr>img_id = 3, img_section = 1, img_ordering = 5, img_deleted = False, img_title = ''c'', img_image = ''z''\<rparr>]\<rparr>"]
  by (auto simp: Let_def section_images_def example_env_def empty_store_def split: prod.splits)

subsection \<open>Orderings assigned by validation\<close>

lemma validate_options_from_ordering:
  "validate_options_from env inst st k data = Inr data' \<Longrightarrow>
     length data' = length data
     \<and> (\<forall>i < length data. od_ordering (data' ! i) = Some (int (k + i) + 1))"
proof (induction data arbitrary: k data')
  case Nil
  then show ?case by simp
next
  case (Cons od rest)
  from Cons.prems obtain x rest' where
    r: "validate_options_from env inst st (Suc k) rest = Inr rest'"
    and d: "data' = x # rest'" and x: "od_ordering x = Some (int k + 1)"
    by (auto simp: Let_def split: if_splits sum.splits option.splits)
  from Cons.IH [OF r] have l: "length rest' = length rest"
    and o: "\<forall>i < length rest. od_ordering (rest' ! i) = Some (int (Suc k + i) + 1)" by auto
  show ?case
  proof (intro conjI allI impI)
    show "length data' = length (od # rest)" using l d by simp
    fix i assume "i < length (od # rest)"
    then show "od_ordering (data' ! i) = Some (int (k + i) + 1)"
      using o x d by (cases i) auto
  qed
qed

lemma validate_questions_from_ordering:
  "validate_questions_from env inst st k data = Inr data' \<Longrightarrow>
     length data' = length data
     \<and> (\<forall>i < length data. pd_ordering (data' ! i) = Some (int (k + i) + 1))"
proof (induction data arbitrary: k data')
  case Nil
  then show ?case by simp
next
  case (Cons pd rest)
  from Cons.prems obtain x rest' where
    r: "validate_questions_from env inst st (Suc k) rest = Inr rest'"
    and d: "data' = x # rest'" and x: "pd_ordering x = Some (int k + 1)"
    by (auto simp: Let_def split: if_splits sum.splits option.splits)
  from Cons.IH [OF r] have l: "length rest' = length rest"
    and o: "\<forall>i < length rest. pd_ordering (rest' ! i) = Some (int (Suc k + i) + 1)" by auto
  show ?case
  proof (intro conjI allI impI)
    show "length data' = length (pd # rest)" using l d by simp
    fix i assume "i < length (pd # rest)"
    then show "pd_ordering (data' ! i) = Some (int (k + i) + 1)"
      using o x d by (cases i) auto
  qed
qed

lemma validate_images_from_ordering:
  "validate_images_from env inst st k data = Inr data' \<Longrightarrow>
     length data' = length data
     \<and> (\<forall>i < length data. imd_ordering (data' ! i) = Some (int (k + i)))"
proof (induction data arbitrary: k data')
  case Nil
  then show ?case by simp
next
  case (Cons imd rest)
  from Cons.prems obtain x rest' where
    r: "validate_images_from env inst st (Suc k) rest = Inr rest'"
    and d: "data' = x # rest'" and x: "imd_ordering x = Some (int k)"
    by (auto simp: Let_def split: if_splits sum.splits option.splits)
  from Cons.IH [OF r] have l: "length rest' = length rest"
    and o: "\<forall>i < length rest. imd_ordering (rest' ! i) = Some (int (Suc k + i))" by auto
  show ?case
  proof (intro conjI allI impI)
    show "length data' = length (imd # rest)" using l d by simp
    fix i assume "i < length (imd # rest)"
    then show "imd_ordering (data' ! i) = Some (int (k + i))"
      using o x d by (cases i) auto
  qed
qed

lemma save_new_options:
  "validate_options_from env inst st k data = Inr data' \<Longrightarrow>
   \<forall>od \<in> set data. \<not> pk_given (od_id od) \<Longrightarrow>
   \<exists>ids rows. save_options poll data' st0 = (Inr ids, st0\<lparr>db_options := db_options st0 @ rows\<rparr>)
      \<and> map opt_ordering rows = map (\<lambda>i. int (k + i) + 1) [0..<length data]
      \<and> map opt_id rows = ids"
proof (induction data arbitrary: k data' st0)
  case Nil
  then show ?case by simp
next
  case (Cons od rest)
  from Cons.prems obtain rest' where
    r: "validate_options_from env inst st (Suc k) rest = Inr rest'"
    and d: "data' = od\<lparr>od_ordering := Some (int k + 1),
              od_serializer := Some (SectionPollOptionSerializer_save None (od\<lparr>od_ordering := Some (int k + 1)\<rparr>))\<rparr> # rest'"
    by (auto simp: Let_def split: if_splits sum.splits option.splits)
  define row where "row = \<lparr>opt_id = next_id (map opt_id (db_options st0)), opt_poll = poll,
                     opt_ordering = int k + 1, opt_deleted = False,
                     opt_text = (case od_text od of None \<Rightarrow> [] | Some t \<Rightarrow> t),
                     opt_n_answers = 0\<rparr>"
  define st1 where "st1 = st0\<lparr>db_options := db_options st0 @ [row]\<rparr>"
  have s: "SectionPollOptionSerializer_save None (od\<lparr>od_ordering := Some (int k + 1)\<rparr>) poll (int k + 1) st0
             = (Inr (opt_id row), st1)"
    by (simp add: SectionPollOptionSerializer_save_def row_def st1_def)
  from Cons.prems(2) have "\<forall>od \<in> set rest. \<not> pk_given (od_id od)" by simp
  from Cons.IH [OF r this, of st1] obtain ids rows where
    i: "save_options poll rest' st1 = (Inr ids, st1\<lparr>db_options := db_options st1 @ rows\<rparr>)"
    and o: "map opt_ordering rows = map (\<lambda>i. int (Suc k + i) + 1) [0..<length rest]"
    and k: "map opt_id rows = ids" by blast
  have "save_options poll data' st0 = (Inr (opt_id row # ids), st1\<lparr>db_options := db_options st1 @ rows\<rparr>)"
    by (simp add: d s i)
  moreover have "st1\<lparr>db_options := db_options st1 @ rows\<rparr> = st0\<lparr>db_options := db_options st0 @ (row # rows)\<rparr>"
    by (simp add: st1_def)
  ultimately have A: "save_options poll data' st0 = (Inr (opt_id row # ids), st0\<lparr>db_options := db_options st0 @ (row # rows)\<rparr>)"
    by simp
  have B: "map opt_ordering (row # rows) = map (\<lambda>i. int (k + i) + 1) [0..<length (od # rest)]"
  proof -
    have "[0..<length (od # rest)] = 0 # map Suc [0..<length rest]"
      by (simp add: upt_conv_Cons map_Suc_upt del: upt_Suc)
    then show ?thesis using o by (simp add: row_def comp_def)
  qed
  have C: "map opt_id (row # rows) = opt_id row # ids" using k by simp
  show ?case
    by (rule exI [of _ "opt_id row # ids"], rule exI [of _ "row # rows"]) (intro conjI A B C)
qed

lemma fold_option_soft_delete_orderings:
  "map opt_ordering (db_options (fold option_soft_delete xs st)) = map opt_ordering (db_options st)"
  by (induction xs arbitrary: st) (simp_all add: option_soft_delete_def comp_def if_distrib cong: if_cong)

lemma validate_options_new_ok:
  "\<forall>od \<in> set data. \<not> pk_given (od_id od) \<and> option_fields_valid env (od_text od) \<Longrightarrow>
     \<exists>data'. validate_options_from env inst st k data = Inr data'"
proof (induction data arbitrary: k)
  case Nil
  then show ?case by simp
next
  case (Cons od rest)
  then obtain rest' where "validate_options_from env inst st (Suc k) rest = Inr rest'" by auto
  with Cons.prems show ?case by (simp add: Let_def)
qed

lemma validate_images_new_ok:
  "\<forall>d \<in> set data. \<not> pk_given (imd_id d) \<and> imd_image d \<noteq> None
       \<and> image_fields_valid env (imd_title d) (imd_image d) \<Longrightarrow>
     \<exists>data'. validate_images_from env inst st k data = Inr data'"
proof (induction data arbitrary: k)
  case Nil
  then show ?case by simp
next
  case (Cons d rest)
  then obtain rest' where "validate_images_from env inst st (Suc k) rest = Inr rest'" by auto
  with Cons.prems show ?case by (simp add: Let_def)
qed

lemma validate_questions_new_ok:
  "\<forall>pd \<in> set data. \<not> pk_given (pd_id pd) \<and> poll_fields_valid env (pd_text pd)
       \<and> (\<exists>os. pd_options pd = Some os
              \<and> (\<forall>od \<in> set os. \<not> pk_given (od_id od) \<and> option_fields_valid env (od_text od))) \<Longrightarrow>
     \<exists>data'. validate_questions_from env inst st k data = Inr data'"
proof (induction data arbitrary: k)
  case Nil
  then show ?case by simp
next
  case (Cons pd rest)
  have "\<forall>pd \<in> set rest. \<not> pk_given (pd_id pd) \<and> poll_fields_valid env (pd_text pd)
       \<and> (\<exists>os. pd_options pd = Some os
              \<and> (\<forall>od \<in> set os. \<not> pk_given (od_id od) \<and> option_fields_valid env (od_text od)))"
    using Cons.prems by simp
  from Cons.IH [OF this, of "Suc k"] obtain rest' where
    r: "validate_questions_from env inst st (Suc k) rest = Inr rest'" ..
  from Cons.prems obtain os where o: "pd_options pd = Some os"
    and a: "\<forall>od \<in> set os. \<not> pk_given (od_id od) \<and> option_fields_valid env (od_text od)"
    and n: "\<not> pk_given (pd_id pd)" and f: "poll_fields_valid env (pd_text pd)" by auto
  from validate_options_new_ok [OF a, of None st 0] obtain os' where
    "validate_options_from env None st 0 os = Inr os'" by blast
  then have "\<exists>v. SectionPollSerializer_is_valid env None st (pd\<lparr>pd_ordering := Some (int k + 1)\<rparr>) = Inr v"
    using o f by (simp add: SectionPollSerializer_is_valid_def validate_options_def)
  then show ?case using r n by (auto simp: Let_def)
qed

text \<open>
  C7. Validation gives the element at zero-based position i of an array of poll options,
  and of an array of questions, the ordering i + 1, and the element at position i of an
  array of images the ordering i, whatever ordering the payload carries. An array whose
  elements are all new and pass the field checks is accepted by each validation, so the
  orderings are assigned; handling all-new options appends rows with the orderings
  1, 2, ..., n and changes no ordering of an older row.
\<close>

theorem validation_assigns_orderings:
  "(validate_options env poll st opts = Inr opts' \<longrightarrow>
      length opts' = length opts
      \<and> (\<forall>i < length opts. od_ordering (opts' ! i) = Some (int i + 1)))
   \<and> (validate_questions env sec st questions = Inr questions' \<longrightarrow>
      length questions' = length questions
      \<and> (\<forall>i < length questions. pd_ordering (questions' ! i) = Some (int i + 1)))
   \<and> (validate_images env sec st imgs = Inr imgs' \<longrightarrow>
      length imgs' = length imgs
      \<and> (\<forall>i < length imgs. imd_ordering (imgs' ! i) = Some (int i)))
   \<and> (validate_options env poll st opts = Inr opts' \<and> (\<forall>od \<in> set opts. \<not> pk_given (od_id od)) \<longrightarrow>
      fst (handle_options env p opts' st0) = Inr ()
      \<and> map opt_ordering (db_options (snd (handle_options env p opts' st0)))
          = map opt_ordering (db_options st0) @ map (\<lambda>i. int i + 1) [0..<length opts])
   \<and> ((\<forall>od \<in> set opts. \<not> pk_given (od_id od) \<and> option_fields_valid env (od_text od)) \<longrightarrow>
      (\<exists>r. validate_options env poll st opts = Inr r
           \<and> map od_ordering r = map (\<lambda>i. Some (int i + 1)) [0..<length opts]))
   \<and> ((\<forall>pd \<in> set questions. \<not> pk_given (pd_id pd) \<and> poll_fields_valid env (pd_text pd)
          \<and> (\<exists>os. pd_options pd = Some os
                 \<and> (\<forall>od \<in> set os. \<not> pk_given (od_id od) \<and> option_fields_valid env (od_text od)))) \<longrightarrow>
      (\<exists>r. validate_questions env sec st questions = Inr r
           \<and> map pd_ordering r = map (\<lambda>i. Some (int i + 1)) [0..<length questions]))
   \<and> ((\<forall>d \<in> set imgs. \<not> pk_given (imd_id d) \<and> imd_image d \<noteq> None
          \<and> image_fields_valid env (imd_title d) (imd_image d)) \<longrightarrow>
      (\<exists>r. validate_images env sec st imgs = Inr r
           \<and> map imd_ordering r = map (\<lambda>i. Some (int i)) [0..<length imgs]))"
proof (intro conjI impI)
  assume "validate_options env poll st opts = Inr opts'"
  then show "length opts' = length opts"
    and "\<forall>i < length opts. od_ordering (opts' ! i) = Some (int i + 1)"
    using validate_options_from_ordering [of env poll st 0 opts opts']
    by (simp_all add: validate_options_def)
next
  assume "validate_questions env sec st questions = Inr questions'"
  then show "length questions' = length questions"
    and "\<forall>i < length questions. pd_ordering (questions' ! i) = Some (int i + 1)"
    using validate_questions_from_ordering [of env sec st 0 questions questions']
    by (simp_all add: validate_questions_def)
next
  assume "validate_images env sec st imgs = Inr imgs'"
  then show "length imgs' = length imgs"
    and "\<forall>i < length imgs. imd_ordering (imgs' ! i) = Some (int i)"
    using validate_images_from_ordering [of env sec st 0 imgs imgs']
    by (simp_all add: validate_images_def)
next
  assume a: "validate_options env poll st opts = Inr opts' \<and> (\<forall>od \<in> set opts. \<not> pk_given (od_id od))"
  then obtain ids rows where
    s: "save_options p opts' st0 = (Inr ids, st0\<lparr>db_options := db_options st0 @ rows\<rparr>)"
    and o: "map opt_ordering rows = map (\<lambda>i. int (0 + i) + 1) [0..<length opts]"
    using save_new_options [of env poll st 0 opts opts' p st0]
    by (auto simp: validate_options_def)
  show "fst (handle_options env p opts' st0) = Inr ()"
    by (simp add: handle_options_def s)
  show "map opt_ordering (db_options (snd (handle_options env p opts' st0)))
          = map opt_ordering (db_options st0) @ map (\<lambda>i. int i + 1) [0..<length opts]"
    using o by (simp add: handle_options_def s fold_option_soft_delete_orderings)
next
  assume a: "\<forall>od \<in> set opts. \<not> pk_given (od_id od) \<and> option_fields_valid env (od_text od)"
  from validate_options_new_ok [OF a, of poll st 0] obtain r where
    r: "validate_options_from env poll st 0 opts = Inr r" by blast
  from validate_options_from_ordering [OF r] have "length r = length opts"
    and "\<forall>i < length opts. od_ordering (r ! i) = Some (int (0 + i) + 1)" by simp_all
  then have "map od_ordering r = map (\<lambda>i. Some (int i + 1)) [0..<length opts]"
    by (intro nth_equalityI) simp_all
  with r show "\<exists>r. validate_options env poll st opts = Inr r
           \<and> map od_ordering r = map (\<lambda>i. Some (int i + 1)) [0..<length opts]"
    by (simp add: validate_options_def)
next
  assume a: "\<forall>pd \<in> set questions. \<not> pk_given (pd_id pd) \<and> poll_fields_valid env (pd_text pd)
          \<and> (\<exists>os. pd_options pd = Some os
                 \<and> (\<forall>od \<in> set os. \<not> pk_given (od_id od) \<and> option_fields_valid env (od_text od)))"
  from validate_questions_new_ok [OF a, of sec st 0] obtain r where
    r: "validate_questions_from env sec st 0 questions = Inr r" by blast
  from validate_questions_from_ordering [OF r] have "length r = length questions"
    and "\<forall>i < length questions. pd_ordering (r ! i) = Some (int (0 + i) + 1)" by simp_all
  then have "map pd_ordering r = map (\<lambda>i. Some (int i + 1)) [0..<length questions]"
    by (intro nth_equalityI) simp_all
  with r show "\<exists>r. validate_questions env sec st questions = Inr r
           \<and> map pd_ordering r = map (\<lambda>i. Some (int i + 1)) [0..<length questions]"
    by (simp add: validate_questions_def)
next
  assume a: "\<forall>d \<in> set imgs. \<not> pk_given (imd_id d) \<and> imd_image d \<noteq> None
          \<and> image_fields_valid env (imd_title d) (imd_image d)"
  from validate_images_new_ok [OF a, of sec st 0] obtain r where
    r: "validate_images_from env sec st 0 imgs = Inr r" by blast
  from validate_images_from_ordering [OF r] have "length r = length imgs"
    and "\<forall>i < length imgs. imd_ordering (r ! i) = Some (int (0 + i))" by simp_all
  then have "map imd_ordering r = map (\<lambda>i. Some (int i)) [0..<length imgs]"
    by (intro nth_equalityI) simp_all
  with r show "\<exists>r. validate_images env sec st imgs = Inr r
           \<and> map imd_ordering r = map (\<lambda>i. Some (int i)) [0..<length imgs]"
    by (simp add: validate_images_def)
qed

theorem validation_assigns_orderings_witness:
  "(let opts = [new_option ''X'' None, new_option ''Y'' (Some 7), new_option ''Z'' (Some 1)];
        opts' = projr (validate_options example_env None empty_store opts);
        questions = [new_question ''P'' [new_option ''X'' None], new_question ''Q'' []];
        questions' = projr (validate_questions example_env None empty_store questions);
        imgs = [new_image ''A'' (Some 9), new_image ''B'' None];
        imgs' = projr (validate_images example_env None empty_store imgs)
    in map od_ordering opts' = [Some 1, Some 2, Some 3]
       \<and> map opt_ordering (db_options (snd (handle_options example_env 1 opts' empty_store))) = [1, 2, 3]
       \<and> map pd_ordering questions' = [Some 1, Some 2]
       \<and> map poll_ordering (db_polls (snd (handle_questions example_env 1 questions' empty_store))) = [1, 2]
       \<and> map imd_ordering imgs' = [Some 0, Some 1]
       \<and> map img_ordering (db_images (snd (handle_images example_env 1 imgs' empty_store))) = [0, 1])"
proof -
  let ?opts = "[new_option ''X'' None, new_option ''Y'' (Some 7), new_option ''Z'' (Some 1)]"
  let ?qs = "[new_question ''P'' [new_option ''X'' None], new_question ''Q'' []]"
  let ?imgs = "[new_image ''A'' (Some 9), new_image ''B'' None]"
  note t = validation_assigns_orderings
    [where env = example_env and poll = None and sec = None and st = empty_store
       and opts = ?opts and questions = ?qs and imgs = ?imgs
       and opts' = "projr (validate_options example_env None empty_store ?opts)"
       and questions' = "[]" and imgs' = "[]" and p = 1 and ?st0.0 = empty_store]
  have u: "[0..<3] = [0, 1, 2]" "[0..<2] = [0, 1]" by (simp_all add: upt_conv_Cons)
  have ho: "\<forall>od \<in> set ?opts. \<not> pk_given (od_id od) \<and> option_fields_valid example_env (od_text od)"
    by (simp add: new_option_def pk_given_def example_env_def)
  have hq: "\<forall>pd \<in> set ?qs. \<not> pk_given (pd_id pd) \<and> poll_fields_valid example_env (pd_text pd)
          \<and> (\<exists>os. pd_options pd = Some os
                 \<and> (\<forall>od \<in> set os. \<not> pk_given (od_id od) \<and> option_fields_valid example_env (od_text od)))"
    by (simp add: new_question_def new_option_def pk_given_def example_env_def)
  have hi: "\<forall>d \<in> set ?imgs. \<not> pk_given (imd_id d) \<and> imd_image d \<noteq> None
          \<and> image_fields_valid example_env (imd_title d) (imd_image d)"
    by (simp add: new_image_def pk_given_def example_env_def)
  from mp [OF t [THEN conjunct2, THEN conjunct2, THEN conjunct2, THEN conjunct2, THEN conjunct1] ho]
  obtain ro where ro: "validate_options example_env None empty_store ?opts = Inr ro
           \<and> map od_ordering ro = map (\<lambda>i. Some (int i + 1)) [0..<length ?opts]" ..
  from mp [OF t [THEN conjunct2, THEN conjunct2, THEN conjunct2, THEN conjunct2, THEN conjunct2,
                 THEN conjunct1] hq]
  obtain rq where rq: "validate_questions example_env None empty_store ?qs = Inr rq
           \<and> map pd_ordering rq = map (\<lambda>i. Some (int i + 1)) [0..<length ?qs]" ..
  from mp [OF t [THEN conjunct2, THEN conjunct2, THEN conjunct2, THEN conjunct2, THEN conjunct2,
                 THEN conjunct2] hi]
  obtain ri where ri: "validate_images example_env None empty_store ?imgs = Inr ri
           \<and> map imd_ordering ri = map (\<lambda>i. Some (int i)) [0..<length ?imgs]" ..
  have a: "map od_ordering (projr (validate_options example_env None empty_store ?opts))
             = [Some 1, Some 2, Some 3]"
    using ro by (simp add: u)
  have c: "map pd_ordering (projr (validate_questions example_env None empty_store ?qs))
             = [Some 1, Some 2]"
    using rq by (simp add: u)
  have e: "map imd_ordering (projr (validate_images example_env None empty_store ?imgs))
             = [Some 0, Some 1]"
    using ri by (simp add: u)
  have n: "\<forall>od \<in> set ?opts. \<not> pk_given (od_id od)" using ho by simp
  have b: "map opt_ordering (db_options (snd (handle_options example_env 1
              (projr (validate_options example_env None empty_store ?opts)) empty_store))) = [1, 2, 3]"
  proof -
    have "validate_options example_env None empty_store ?opts
            = Inr (projr (validate_options example_env None empty_store ?opts))"
      using ro by simp
    with n have "map opt_ordering (db_options (snd (handle_options example_env 1
              (projr (validate_options example_env None empty_store ?opts)) empty_store)))
          = map opt_ordering (db_options empty_store) @ map (\<lambda>i. int i + 1) [0..<length ?opts]"
      using t [THEN conjunct2, THEN conjunct2, THEN conjunct2, THEN conjunct1] by blast
    then show ?thesis by (simp add: empty_store_def u)
  qed
  have d: "map poll_ordering (db_polls (snd (handle_questions example_env 1
              (projr (validate_questions example_env None empty_store ?qs)) empty_store))) = [1, 2]"
    by (simp add: validate_questions_def validate_options_def new_question_def new_option_def
        pk_given_def example_env_def empty_store_def Let_def SectionPollSerializer_is_valid_def
        SectionPollSerializer_save_def SectionPollSerializer_create_def atomic_def
        handle_questions_def handle_options_def SectionPollOptionSerializer_save_def
        section_polls_def poll_options_def next_id_def)
  have f: "map img_ordering (db_images (snd (handle_images example_env 1
              (projr (validate_images example_env None empty_store ?imgs)) empty_store))) = [0, 1]"
    by (simp add: validate_images_def new_image_def pk_given_def example_env_def empty_store_def
        Let_def handle_images_def SectionImageCreateUpdateSerializer_save_def section_images_def
        next_id_def)
  show ?thesis unfolding Let_def by (intro conjI a b c d e f)
qed

subsection \<open>Polls that have answers\<close>

lemma compare_option_texts_present:
  "\<forall>(old, od) \<in> set ps. od_text od \<noteq> None \<Longrightarrow>
   compare_option_texts env pk ps =
     (if \<exists>(old, od) \<in> set ps. \<not> compare_serialized env (opt_text old) (the (od_text od))
      then Inl (ValidationError (poll_has_answers_message pk)) else Inr ())"
  by (induction ps) (auto split: option.splits)

lemma validate_question_update_present:
  assumes "pd_text pd = Some t" and "pd_options pd = Some os"
    and "\<forall>od \<in> set os. od_text od \<noteq> None"
  shows "validate_question_update env st pd poll =
     (if 0 < poll_n_answers poll
         \<and> (\<not> compare_serialized env (poll_text poll) t
            \<or> length (poll_options env (poll_id poll) st) \<noteq> length os
            \<or> (\<exists>(old, od) \<in> set (zip (poll_options env (poll_id poll) st) os).
                  \<not> compare_serialized env (opt_text old) (the (od_text od))))
      then Inl (ValidationError (poll_has_answers_message (poll_id poll)))
      else Inr ())"
proof -
  have "\<forall>(old, od) \<in> set (zip (poll_options env (poll_id poll) st) os). od_text od \<noteq> None"
    using assms(3) by (auto dest: set_zip_rightD)
  from compare_option_texts_present [OF this] show ?thesis
    using assms(1,2) by (simp add: validate_question_update_def Let_def)
qed

text \<open>
  C2. A poll with answers is updated with a payload that has no \<open>text\<close> key and one
  option where two are stored. The claim asks for the rejection "Poll with ID 5 has
  answers - editing it is not allowed"; the validation raises KeyError instead, which
  the \<open>except AssertionError\<close> does not catch.
\<close>

theorem validate_questions_missing_text:
  "validate_questions example_env
     (Some \<lparr>sec_id = 1, sec_title = ''s'', sec_published = True\<rparr>)
     (empty_store\<lparr>
        db_sections := [\<lparr>sec_id = 1, sec_title = ''s'', sec_published = True\<rparr>],
        db_polls := [\<lparr>poll_id = 5, poll_section = 1, poll_ordering = 1, poll_deleted = False,
                      poll_text = [(''en'', ''Q'')], poll_n_answers = 1, poll_is_independent = False\<rparr>],
        db_options := [\<lparr>opt_id = 1, opt_poll = 5, opt_ordering = 1, opt_deleted = False,
                         opt_text = [(''en'', ''A'')], opt_n_answers = 1\<rparr>,
                       \<lparr>opt_id = 2, opt_poll = 5, opt_ordering = 2, opt_deleted = False,
                         opt_text = [(''en'', ''B'')], opt_n_answers = 0\<rparr>]\<rparr>)
     [\<lparr>pd_id = Some 5, pd_text = None,
       pd_options = Some [\<lparr>od_id = Some 1, od_text = Some [(''en'', ''A'')], od_ordering = None,
                            od_serializer = None\<rparr>],
       pd_is_independent = False, pd_ordering = None, pd_serializer = None\<rparr>]
   = Inl (KeyError ''text'')"
  by (simp add: validate_questions_def pk_given_def section_polls_def validate_question_update_def
      example_env_def empty_store_def Let_def)

subsection \<open>Soft deletion of the children left out of an update\<close>

lemma upsert_fresh: "key x \<notin> key ` set rows \<Longrightarrow> upsert key x rows = rows @ [x]"
proof -
  assume "key x \<notin> key ` set rows"
  then have "\<not> (\<exists>r \<in> set rows. key r = key x)" by (metis image_eqI)
  then show ?thesis by (simp add: upsert_def)
qed

lemma upsert_mem:
  "r' \<in> set (upsert key x rows) \<Longrightarrow> r' = x \<or> (r' \<in> set rows \<and> key r' \<noteq> key x)"
  by (auto simp: upsert_def split: if_splits)

lemma upsert_keep: "r \<in> set rows \<Longrightarrow> key r \<noteq> key x \<Longrightarrow> r \<in> set (upsert key x rows)"
  by (auto simp: upsert_def)

lemma upsert_keys_image: "key ` set (upsert key x rows) = insert (key x) (key ` set rows)"
  using upsert_keys [of key x rows] by simp

lemma fold_upsert_keys:
  "key ` set (fold (upsert key) ws rows) = key ` set rows \<union> key ` set ws"
  by (induction ws arbitrary: rows) (auto simp: upsert_keys_image)

lemma fold_upsert_mem:
  "r' \<in> set (fold (upsert key) ws rows) \<Longrightarrow>
     r' \<in> set ws \<or> (r' \<in> set rows \<and> (\<forall>w \<in> set ws. key w \<noteq> key r'))"
proof (induction ws arbitrary: rows)
  case Nil
  then show ?case by simp
next
  case (Cons w ws)
  from Cons.IH [of "upsert key w rows"] Cons.prems
  have "r' \<in> set ws \<or> (r' \<in> set (upsert key w rows) \<and> (\<forall>w \<in> set ws. key w \<noteq> key r'))" by simp
  then show ?case using upsert_mem [of r' key w rows] by auto
qed

lemma fold_upsert_keep:
  "r \<in> set rows \<Longrightarrow> \<forall>w \<in> set ws. key w \<noteq> key r \<Longrightarrow> r \<in> set (fold (upsert key) ws rows)"
proof (induction ws arbitrary: rows)
  case Nil
  then show ?case by simp
next
  case (Cons w ws)
  then have "r \<in> set (upsert key w rows)" by (auto intro: upsert_keep)
  with Cons show ?case by simp
qed

text \<open>
  The effect of a handler on one table, whatever the row type: \<open>ws\<close> are the rows the
  saves wrote, each either the rewritten row of a given id or a row under a new key;
  afterwards every listed row of the parent whose key was not written is marked.
\<close>

lemma handler_table_result:
  fixes key :: "'r \<Rightarrow> nat" and del :: "'r \<Rightarrow> bool" and mark :: "'r \<Rightarrow> 'r"
  assumes mark: "\<And>r. key (mark r) = key r" "\<And>r. del (mark r)"
    and dist: "distinct (map key rows)"
    and ws: "\<And>w. w \<in> set ws \<Longrightarrow>
               (\<exists>x \<in> set rows. key w = key x \<and> del w = del x \<and> key x \<in> G)
               \<or> ((\<forall>x \<in> set rows. key x \<noteq> key w) \<and> \<not> del w)"
    and G: "\<And>i. i \<in> G \<Longrightarrow> \<exists>w \<in> set ws. key w = i"
    and fin: "final = map (\<lambda>r. if \<exists>y \<in> set (fold (upsert key) ws rows).
                                   key y = key r \<and> in_parent y \<and> (hide \<longrightarrow> \<not> del y)
                                   \<and> (\<forall>w \<in> set ws. key w \<noteq> key y)
                              then mark r else r) (fold (upsert key) ws rows)"
    and r: "r \<in> set rows" and r': "r' \<in> set final" and k: "key r' = key r"
  shows "(in_parent r \<and> key r \<notin> G \<longrightarrow> del r') \<and> (key r \<in> G \<longrightarrow> del r' = del r)"
proof -
  define rows' where "rows' = fold (upsert key) ws rows"
  define V where "V = (\<lambda>r. \<exists>y \<in> set rows'. key y = key r \<and> in_parent y \<and> (hide \<longrightarrow> \<not> del y)
                                   \<and> (\<forall>w \<in> set ws. key w \<noteq> key y))"
  have "r' \<in> set (map (\<lambda>r. if V r then mark r else r) rows')"
    using r' unfolding fin V_def rows'_def .
  then have "r' \<in> (\<lambda>r. if V r then mark r else r) ` set rows'"
    by (simp only: set_map)
  then obtain r'' where r'': "r'' \<in> set rows'"
    and e: "r' = (if V r'' then mark r'' else r'')" by (rule imageE)
  have m: "r' = mark r''" if "V r''" using that e by simp
  have n: "r' = r''" if "\<not> V r''" using that e by simp
  have k'': "key r'' = key r"
  proof (cases "V r''")
    case True
    then show ?thesis using m k mark(1) by metis
  next
    case False
    then show ?thesis using n k by metis
  qed
  have same: "x = r" if "x \<in> set rows" "key x = key r" for x
    using that r dist by (metis distinct_map inj_onD)
  have mem: "r'' \<in> set ws \<or> (r'' \<in> set rows \<and> (\<forall>w \<in> set ws. key w \<noteq> key r''))"
    using fold_upsert_mem [of r'' key ws rows] r'' unfolding rows'_def by blast
  show ?thesis
  proof (intro conjI impI)
    assume a: "in_parent r \<and> key r \<notin> G"
    have nw: "key w \<noteq> key r" if w: "w \<in> set ws" for w
    proof
      assume kw: "key w = key r"
      from ws [OF w] show False
      proof
        assume "\<exists>x \<in> set rows. key w = key x \<and> del w = del x \<and> key x \<in> G"
        then obtain x where "x \<in> set rows" "key w = key x" "key x \<in> G" by blast
        then show False using kw a by metis
      next
        assume "(\<forall>x \<in> set rows. key x \<noteq> key w) \<and> \<not> del w"
        then show False using kw r by metis
      qed
    qed
    have "r'' \<notin> set ws" using nw k'' by metis
    then have "r'' \<in> set rows" using mem by blast
    then have rr: "r'' = r" using same k'' by blast
    have rin: "r \<in> set rows'" unfolding rows'_def using fold_upsert_keep [OF r] nw by blast
    show "del r'"
    proof (cases "V r''")
      case True
      then show ?thesis using m mark(2) by metis
    next
      case False
      then have r'r: "r' = r" using n rr by metis
      have "\<not> (in_parent r \<and> (hide \<longrightarrow> \<not> del r) \<and> (\<forall>w \<in> set ws. key w \<noteq> key r))"
        using False rin rr unfolding V_def by blast
      then have "del r" using a nw by blast
      then show ?thesis using r'r by simp
    qed
  next
    assume g: "key r \<in> G"
    from G [OF g] obtain w0 where w0: "w0 \<in> set ws" "key w0 = key r" by blast
    have "\<not> (\<forall>w \<in> set ws. key w \<noteq> key r'')" using w0 k'' by metis
    then have inws: "r'' \<in> set ws" using mem by blast
    have d: "del r'' = del r"
      using ws [OF inws]
    proof
      assume "\<exists>x \<in> set rows. key r'' = key x \<and> del r'' = del x \<and> key x \<in> G"
      then obtain x where x: "x \<in> set rows" "key r'' = key x" "del r'' = del x" by blast
      then have "x = r" using same k'' by metis
      then show ?thesis using x by simp
    next
      assume "(\<forall>x \<in> set rows. key x \<noteq> key r'') \<and> \<not> del r''"
      then show ?thesis using r k'' by metis
    qed
    have "\<not> V r''"
    proof
      assume "V r''"
      then obtain y where "key y = key r''" "\<forall>w \<in> set ws. key w \<noteq> key y" unfolding V_def by blast
      then show False using w0 k'' by metis
    qed
    then have "r' = r''" using n by simp
    then show "del r' = del r" using d by simp
  qed
qed

lemma handler_table_keys:
  fixes key :: "'r \<Rightarrow> nat"
  assumes "\<And>r. key (mark r) = key r"
  shows "key ` set rows \<subseteq> key ` set (map (\<lambda>r. if P r then mark r else r) (fold (upsert key) ws rows))"
proof -
  have "map key (map (\<lambda>r. if P r then mark r else r) xs) = map key xs" for xs
    by (induction xs) (simp_all add: assms)
  then have "set (map key (map (\<lambda>r. if P r then mark r else r) (fold (upsert key) ws rows)))
          = set (map key (fold (upsert key) ws rows))" by simp
  then have "key ` set (map (\<lambda>r. if P r then mark r else r) (fold (upsert key) ws rows))
          = key ` set (fold (upsert key) ws rows)" by (simp only: set_map)
  then show ?thesis by (simp only: fold_upsert_keys) blast
qed

lemma given_ids_Cons:
  "given_ids (pk # pks) = (if pk_given pk then insert (the pk) (given_ids pks) else given_ids pks)"
  by (auto simp: given_ids_def pk_given_def split: option.splits)

lemma fold_option_soft_delete:
  "fold option_soft_delete xs st =
     st\<lparr>db_options := map (\<lambda>r. if \<exists>y \<in> set xs. opt_id y = opt_id r then r\<lparr>opt_deleted := True\<rparr> else r)
                          (db_options st)\<rparr>"
proof (induction xs arbitrary: st)
  case Nil
  then show ?case by simp
next
  case (Cons x xs)
  show ?case by (simp add: Cons.IH) (auto simp: option_soft_delete_def)
qed

lemma option_save_step:
  "\<exists>w. SectionPollOptionSerializer_save found od poll ordr cur
          = (Inr (opt_id w), cur\<lparr>db_options := upsert opt_id w (db_options cur)\<rparr>)
      \<and> (case found of
            Some x \<Rightarrow> opt_id w = opt_id x \<and> opt_deleted w = opt_deleted x
          | None \<Rightarrow> (\<forall>x \<in> set (db_options cur). opt_id x \<noteq> opt_id w) \<and> \<not> opt_deleted w)"
proof (cases found)
  case None
  define w where "w = \<lparr>opt_id = next_id (map opt_id (db_options cur)), opt_poll = poll,
                     opt_ordering = ordr, opt_deleted = False,
                     opt_text = (case od_text od of None \<Rightarrow> [] | Some t \<Rightarrow> t),
                     opt_n_answers = 0\<rparr>"
  have f: "opt_id w \<notin> opt_id ` set (db_options cur)"
    using next_id_fresh [of "map opt_id (db_options cur)"] by (simp add: w_def)
  then have f': "\<forall>x \<in> set (db_options cur). opt_id x \<noteq> opt_id w" by (metis image_eqI)
  have "SectionPollOptionSerializer_save found od poll ordr cur
          = (Inr (opt_id w), cur\<lparr>db_options := upsert opt_id w (db_options cur)\<rparr>)"
    by (simp add: SectionPollOptionSerializer_save_def None upsert_fresh [OF f] w_def [symmetric])
  moreover have "\<not> opt_deleted w" by (simp add: w_def)
  ultimately show ?thesis using f' None by (intro exI [of _ w]) simp
next
  case (Some x)
  define w where "w = x\<lparr>opt_text := (case od_text od of None \<Rightarrow> opt_text x | Some t \<Rightarrow> t),
                      opt_poll := poll, opt_ordering := ordr\<rparr>"
  have "SectionPollOptionSerializer_save found od poll ordr cur
          = (Inr (opt_id w), cur\<lparr>db_options := upsert opt_id w (db_options cur)\<rparr>)"
    by (simp add: SectionPollOptionSerializer_save_def Some w_def [symmetric] Let_def)
  moreover have "opt_id w = opt_id x \<and> opt_deleted w = opt_deleted x" by (simp add: w_def)
  ultimately show ?thesis using Some by (intro exI [of _ w]) simp
qed

lemma find_SomeD: "find P xs = Some x \<Longrightarrow> x \<in> set xs \<and> P x"
  by (induction xs) (auto split: if_splits)

lemma validate_options_from_Cons_aux:
  assumes "validate_options_from env inst st k (od # rest) = Inr data'"
  shows "\<exists>rest'.
      data' = od\<lparr>od_ordering := Some (int k + 1),
               od_serializer := Some (SectionPollOptionSerializer_save
                  (if pk_given (od_id od)
                   then find (\<lambda>r. opt_id r = the (od_id od)) (poll_options env (poll_id (the inst)) st)
                   else None)
                  (od\<lparr>od_ordering := Some (int k + 1)\<rparr>))\<rparr> # rest'
    \<and> validate_options_from env inst st (Suc k) rest = Inr rest'
    \<and> (pk_given (od_id od) \<longrightarrow> inst \<noteq> None
         \<and> find (\<lambda>r. opt_id r = the (od_id od)) (poll_options env (poll_id (the inst)) st) \<noteq> None)"
  using assms by (auto simp: Let_def split: if_splits sum.splits option.splits) metis

lemma validate_options_from_Cons:
  assumes "validate_options_from env inst st k (od # rest) = Inr data'"
  shows "\<exists>found rest'.
      data' = od\<lparr>od_ordering := Some (int k + 1),
               od_serializer := Some (SectionPollOptionSerializer_save found
                                        (od\<lparr>od_ordering := Some (int k + 1)\<rparr>))\<rparr> # rest'
    \<and> validate_options_from env inst st (Suc k) rest = Inr rest'
    \<and> (pk_given (od_id od) \<longrightarrow>
           (\<exists>p x. inst = Some p \<and> x \<in> set (poll_options env (poll_id p) st)
                 \<and> opt_id x = the (od_id od) \<and> found = Some x))
    \<and> (\<not> pk_given (od_id od) \<longrightarrow> found = None)"
proof -
  define found where "found = (if pk_given (od_id od)
                   then find (\<lambda>r. opt_id r = the (od_id od)) (poll_options env (poll_id (the inst)) st)
                   else None)"
  from validate_options_from_Cons_aux [OF assms] obtain rest' where
    d: "data' = od\<lparr>od_ordering := Some (int k + 1),
               od_serializer := Some (SectionPollOptionSerializer_save found
                                        (od\<lparr>od_ordering := Some (int k + 1)\<rparr>))\<rparr> # rest'"
    and r: "validate_options_from env inst st (Suc k) rest = Inr rest'"
    and g: "pk_given (od_id od) \<longrightarrow> inst \<noteq> None
         \<and> find (\<lambda>r. opt_id r = the (od_id od)) (poll_options env (poll_id (the inst)) st) \<noteq> None"
    unfolding found_def by blast
  have "\<exists>p x. inst = Some p \<and> x \<in> set (poll_options env (poll_id p) st)
                 \<and> opt_id x = the (od_id od) \<and> found = Some x" if t: "pk_given (od_id od)"
  proof -
    from g t obtain p x where p: "inst = Some p"
      and f: "find (\<lambda>r. opt_id r = the (od_id od)) (poll_options env (poll_id (the inst)) st) = Some x"
      by auto
    from find_SomeD [OF f] have "x \<in> set (poll_options env (poll_id p) st)" "opt_id x = the (od_id od)"
      using p by simp_all
    moreover have "found = Some x" using f t by (simp add: found_def)
    ultimately show ?thesis using p by blast
  qed
  moreover have "\<not> pk_given (od_id od) \<longrightarrow> found = None" by (simp add: found_def)
  ultimately show ?thesis using d r by blast
qed

lemma poll_options_subset: "x \<in> set (poll_options env poll st) \<Longrightarrow> x \<in> set (db_options st)"
  by (simp add: poll_options_def)

lemma save_options_validated:
  assumes "validate_options_from env inst st k data = Inr data'"
  shows "\<exists>ws. save_options poll data' cur
            = (Inr (map opt_id ws), cur\<lparr>db_options := fold (upsert opt_id) ws (db_options cur)\<rparr>)
      \<and> (\<forall>w \<in> set ws.
            (\<exists>x \<in> set (db_options st). opt_id w = opt_id x
                   \<and> opt_deleted w = opt_deleted x \<and> opt_id x \<in> given_ids (map od_id data))
            \<or> ((\<forall>x \<in> set (db_options cur). opt_id x \<noteq> opt_id w) \<and> \<not> opt_deleted w))
      \<and> (\<forall>i \<in> given_ids (map od_id data). \<exists>w \<in> set ws. opt_id w = i)"
  using assms
proof (induction data arbitrary: k data' cur)
  case Nil
  then show ?case by (auto simp: given_ids_def intro!: exI [of _ "[]"])
next
  case (Cons od rest)
  from Cons.prems obtain found rest' where
    d: "data' = od\<lparr>od_ordering := Some (int k + 1),
               od_serializer := Some (SectionPollOptionSerializer_save found
                                        (od\<lparr>od_ordering := Some (int k + 1)\<rparr>))\<rparr> # rest'"
    and r: "validate_options_from env inst st (Suc k) rest = Inr rest'"
    and g: "pk_given (od_id od) \<Longrightarrow>
           \<exists>p x. inst = Some p \<and> x \<in> set (poll_options env (poll_id p) st)
                 \<and> opt_id x = the (od_id od) \<and> found = Some x"
    and n: "\<not> pk_given (od_id od) \<Longrightarrow> found = None"
    using validate_options_from_Cons [of env inst st k od rest data'] by blast
  obtain w where
    s: "SectionPollOptionSerializer_save found (od\<lparr>od_ordering := Some (int k + 1)\<rparr>) poll (int k + 1) cur
          = (Inr (opt_id w), cur\<lparr>db_options := upsert opt_id w (db_options cur)\<rparr>)"
    and c: "case found of
            Some x \<Rightarrow> opt_id w = opt_id x \<and> opt_deleted w = opt_deleted x
          | None \<Rightarrow> (\<forall>x \<in> set (db_options cur). opt_id x \<noteq> opt_id w) \<and> \<not> opt_deleted w"
    using option_save_step by blast
  define cur1 where "cur1 = cur\<lparr>db_options := upsert opt_id w (db_options cur)\<rparr>"
  from Cons.IH [OF r, of cur1] obtain ws where
    i: "save_options poll rest' cur1
          = (Inr (map opt_id ws), cur1\<lparr>db_options := fold (upsert opt_id) ws (db_options cur1)\<rparr>)"
    and f: "\<forall>w \<in> set ws.
            (\<exists>x \<in> set (db_options st). opt_id w = opt_id x
                   \<and> opt_deleted w = opt_deleted x \<and> opt_id x \<in> given_ids (map od_id rest))
            \<or> ((\<forall>x \<in> set (db_options cur1). opt_id x \<noteq> opt_id w) \<and> \<not> opt_deleted w)"
    and h: "\<forall>i \<in> given_ids (map od_id rest). \<exists>w \<in> set ws. opt_id w = i"
    by blast
  have sub: "opt_id ` set (db_options cur) \<subseteq> opt_id ` set (db_options cur1)"
    by (auto simp: cur1_def upsert_keys_image)
  have A: "save_options poll data' cur
            = (Inr (map opt_id (w # ws)), cur\<lparr>db_options := fold (upsert opt_id) (w # ws) (db_options cur)\<rparr>)"
    using s i by (simp add: d cur1_def)
  have gsub: "given_ids (map od_id rest) \<subseteq> given_ids (map od_id (od # rest))"
    by (auto simp: given_ids_Cons)
  have B: "\<forall>w' \<in> set (w # ws).
            (\<exists>x \<in> set (db_options st). opt_id w' = opt_id x
                   \<and> opt_deleted w' = opt_deleted x \<and> opt_id x \<in> given_ids (map od_id (od # rest)))
            \<or> ((\<forall>x \<in> set (db_options cur). opt_id x \<noteq> opt_id w') \<and> \<not> opt_deleted w')"
  proof
    fix w' assume "w' \<in> set (w # ws)"
    then consider "w' = w" | "w' \<in> set ws" by auto
    then show "(\<exists>x \<in> set (db_options st). opt_id w' = opt_id x
                   \<and> opt_deleted w' = opt_deleted x \<and> opt_id x \<in> given_ids (map od_id (od # rest)))
            \<or> ((\<forall>x \<in> set (db_options cur). opt_id x \<noteq> opt_id w') \<and> \<not> opt_deleted w')"
    proof cases
      case 1
      show ?thesis
      proof (cases "pk_given (od_id od)")
        case True
        from g [OF True] obtain p x where "inst = Some p" and px: "x \<in> set (poll_options env (poll_id p) st)"
          "opt_id x = the (od_id od)" "found = Some x" by blast
        have xin: "x \<in> set (db_options st)" using px(1) by (rule poll_options_subset)
        have gi: "opt_id x \<in> given_ids (map od_id (od # rest))"
          using True px(2) by (simp add: given_ids_Cons)
        have wx: "opt_id w' = opt_id x \<and> opt_deleted w' = opt_deleted x"
          using c px(3) 1 by simp
        have "\<exists>x \<in> set (db_options st). opt_id w' = opt_id x
                   \<and> opt_deleted w' = opt_deleted x \<and> opt_id x \<in> given_ids (map od_id (od # rest))"
          using xin wx gi by (intro bexI [of _ x] conjI) simp_all
        then show ?thesis ..
      next
        case False
        then show ?thesis using n c 1 by simp
      qed
    next
      case 2
      with f have "(\<exists>x \<in> set (db_options st). opt_id w' = opt_id x
                   \<and> opt_deleted w' = opt_deleted x \<and> opt_id x \<in> given_ids (map od_id rest))
            \<or> ((\<forall>x \<in> set (db_options cur1). opt_id x \<noteq> opt_id w') \<and> \<not> opt_deleted w')" by blast
      then show ?thesis
      proof
        assume "\<exists>x \<in> set (db_options st). opt_id w' = opt_id x
                   \<and> opt_deleted w' = opt_deleted x \<and> opt_id x \<in> given_ids (map od_id rest)"
        then show ?thesis using gsub by blast
      next
        assume a: "(\<forall>x \<in> set (db_options cur1). opt_id x \<noteq> opt_id w') \<and> \<not> opt_deleted w'"
        have "\<forall>x \<in> set (db_options cur). opt_id x \<noteq> opt_id w'"
        proof
          fix x assume "x \<in> set (db_options cur)"
          then have "opt_id x \<in> opt_id ` set (db_options cur1)" using sub by blast
          then obtain y where "y \<in> set (db_options cur1)" "opt_id y = opt_id x" by (metis imageE)
          then show "opt_id x \<noteq> opt_id w'" using a by metis
        qed
        then show ?thesis using a by blast
      qed
    qed
  qed
  have C: "\<forall>i \<in> given_ids (map od_id (od # rest)). \<exists>w' \<in> set (w # ws). opt_id w' = i"
  proof
    fix i assume "i \<in> given_ids (map od_id (od # rest))"
    then consider "pk_given (od_id od)" "i = the (od_id od)" | "i \<in> given_ids (map od_id rest)"
      by (auto simp: given_ids_Cons split: if_splits)
    then show "\<exists>w' \<in> set (w # ws). opt_id w' = i"
    proof cases
      case 1
      from g [OF 1(1)] obtain x where "opt_id x = the (od_id od)" "found = Some x" by blast
      then show ?thesis using c 1 by auto
    next
      case 2
      then show ?thesis using h by auto
    qed
  qed
  show ?case by (rule exI [of _ "w # ws"]) (intro conjI A B C)
qed

lemma handle_options_normal:
  assumes "validate_options_from env inst st k data = Inr data'"
  shows "\<exists>ws. handle_options env poll data' cur =
      (Inr (), cur\<lparr>db_options :=
         map (\<lambda>r. if \<exists>y \<in> set (fold (upsert opt_id) ws (db_options cur)).
                       opt_id y = opt_id r \<and> opt_poll y = poll \<and> (hide_deleted env \<longrightarrow> \<not> opt_deleted y)
                       \<and> (\<forall>w \<in> set ws. opt_id w \<noteq> opt_id y)
                   then r\<lparr>opt_deleted := True\<rparr> else r)
             (fold (upsert opt_id) ws (db_options cur))\<rparr>)
      \<and> (\<forall>w \<in> set ws.
            (\<exists>x \<in> set (db_options st). opt_id w = opt_id x
                   \<and> opt_deleted w = opt_deleted x \<and> opt_id x \<in> given_ids (map od_id data))
            \<or> ((\<forall>x \<in> set (db_options cur). opt_id x \<noteq> opt_id w) \<and> \<not> opt_deleted w))
      \<and> (\<forall>i \<in> given_ids (map od_id data). \<exists>w \<in> set ws. opt_id w = i)"
proof -
  from save_options_validated [OF assms, of poll cur] obtain ws where
    s: "save_options poll data' cur
            = (Inr (map opt_id ws), cur\<lparr>db_options := fold (upsert opt_id) ws (db_options cur)\<rparr>)"
    and f: "\<forall>w \<in> set ws.
            (\<exists>x \<in> set (db_options st). opt_id w = opt_id x
                   \<and> opt_deleted w = opt_deleted x \<and> opt_id x \<in> given_ids (map od_id data))
            \<or> ((\<forall>x \<in> set (db_options cur). opt_id x \<noteq> opt_id w) \<and> \<not> opt_deleted w)"
    and g: "\<forall>i \<in> given_ids (map od_id data). \<exists>w \<in> set ws. opt_id w = i"
    by blast
  define rows' where "rows' = fold (upsert opt_id) ws (db_options cur)"
  have e: "(\<exists>y \<in> set (filter (\<lambda>x. opt_poll x = poll \<and> (hide_deleted env \<longrightarrow> \<not> opt_deleted x)
                                    \<and> opt_id x \<notin> set (map opt_id ws)) rows').
              opt_id y = opt_id r)
        \<longleftrightarrow> (\<exists>y \<in> set rows'. opt_id y = opt_id r \<and> opt_poll y = poll
                 \<and> (hide_deleted env \<longrightarrow> \<not> opt_deleted y) \<and> (\<forall>w \<in> set ws. opt_id w \<noteq> opt_id y))" for r
    by (auto simp: image_iff) metis+
  have "handle_options env poll data' cur =
      (Inr (), cur\<lparr>db_options :=
         map (\<lambda>r. if \<exists>y \<in> set rows'.
                       opt_id y = opt_id r \<and> opt_poll y = poll \<and> (hide_deleted env \<longrightarrow> \<not> opt_deleted y)
                       \<and> (\<forall>w \<in> set ws. opt_id w \<noteq> opt_id y)
                   then r\<lparr>opt_deleted := True\<rparr> else r) rows'\<rparr>)"
    unfolding handle_options_def s
    by (simp add: fold_option_soft_delete poll_options_def rows'_def [symmetric] e del: set_filter set_map)
  then show ?thesis using f g unfolding rows'_def
    by (intro exI [of _ ws] conjI)
qed

lemma handle_options_frame:
  assumes "validate_options_from env inst st k data = Inr data'"
  shows "\<exists>opts'. handle_options env poll data' cur = (Inr (), cur\<lparr>db_options := opts'\<rparr>)
      \<and> opt_id ` set (db_options cur) \<subseteq> opt_id ` set opts'"
proof -
  let ?final = "\<lambda>ws. map (\<lambda>r. if \<exists>y \<in> set (fold (upsert opt_id) ws (db_options cur)).
                       opt_id y = opt_id r \<and> opt_poll y = poll \<and> (hide_deleted env \<longrightarrow> \<not> opt_deleted y)
                       \<and> (\<forall>w \<in> set ws. opt_id w \<noteq> opt_id y)
                   then r\<lparr>opt_deleted := True\<rparr> else r)
             (fold (upsert opt_id) ws (db_options cur))"
  from handle_options_normal [OF assms, of poll cur] obtain ws where
    hfg: "handle_options env poll data' cur = (Inr (), cur\<lparr>db_options := ?final ws\<rparr>)
      \<and> (\<forall>w \<in> set ws.
            (\<exists>x \<in> set (db_options st). opt_id w = opt_id x
                   \<and> opt_deleted w = opt_deleted x \<and> opt_id x \<in> given_ids (map od_id data))
            \<or> ((\<forall>x \<in> set (db_options cur). opt_id x \<noteq> opt_id w) \<and> \<not> opt_deleted w))
      \<and> (\<forall>i \<in> given_ids (map od_id data). \<exists>w \<in> set ws. opt_id w = i)" ..
  then have h: "handle_options env poll data' cur = (Inr (), cur\<lparr>db_options := ?final ws\<rparr>)"
    by (rule conjunct1)
  have keys: "opt_id ` set (db_options cur) \<subseteq> opt_id ` set (?final ws)"
    by (rule handler_table_keys) simp
  show ?thesis by (rule exI [of _ "?final ws"]) (rule conjI [OF h keys])
qed

lemma handle_options_validated:
  assumes v: "validate_options env (Some p) st data = Inr data'"
    and dist: "distinct (map opt_id (db_options st))"
    and eq: "db_options cur = db_options st"
  shows "\<exists>st'. handle_options env (poll_id p) data' cur = (Inr (), st')
    \<and> db_sections st' = db_sections cur \<and> db_images st' = db_images cur \<and> db_polls st' = db_polls cur
    \<and> opt_id ` set (db_options st) \<subseteq> opt_id ` set (db_options st')
    \<and> (\<forall>r \<in> set (db_options st). \<forall>r' \<in> set (db_options st'). opt_id r' = opt_id r \<longrightarrow>
         (opt_poll r = poll_id p \<and> opt_id r \<notin> given_ids (map od_id data) \<longrightarrow> opt_deleted r')
         \<and> (opt_id r \<in> given_ids (map od_id data) \<longrightarrow> opt_deleted r' = opt_deleted r))"
proof -
  from v have v': "validate_options_from env (Some p) st 0 data = Inr data'"
    by (simp add: validate_options_def)
  let ?G = "given_ids (map od_id data)"
  let ?final = "\<lambda>ws. map (\<lambda>r. if \<exists>y \<in> set (fold (upsert opt_id) ws (db_options st)).
                       opt_id y = opt_id r \<and> opt_poll y = poll_id p \<and> (hide_deleted env \<longrightarrow> \<not> opt_deleted y)
                       \<and> (\<forall>w \<in> set ws. opt_id w \<noteq> opt_id y)
                   then r\<lparr>opt_deleted := True\<rparr> else r)
             (fold (upsert opt_id) ws (db_options st))"
  from handle_options_normal [OF v', of "poll_id p" cur, unfolded eq] obtain ws where
    hfg: "handle_options env (poll_id p) data' cur = (Inr (), cur\<lparr>db_options := ?final ws\<rparr>)
      \<and> (\<forall>w \<in> set ws.
            (\<exists>x \<in> set (db_options st). opt_id w = opt_id x
                   \<and> opt_deleted w = opt_deleted x \<and> opt_id x \<in> ?G)
            \<or> ((\<forall>x \<in> set (db_options st). opt_id x \<noteq> opt_id w) \<and> \<not> opt_deleted w))
      \<and> (\<forall>i \<in> ?G. \<exists>w \<in> set ws. opt_id w = i)" ..
  then have h: "handle_options env (poll_id p) data' cur = (Inr (), cur\<lparr>db_options := ?final ws\<rparr>)"
    and f: "\<forall>w \<in> set ws.
            (\<exists>x \<in> set (db_options st). opt_id w = opt_id x
                   \<and> opt_deleted w = opt_deleted x \<and> opt_id x \<in> ?G)
            \<or> ((\<forall>x \<in> set (db_options st). opt_id x \<noteq> opt_id w) \<and> \<not> opt_deleted w)"
    and g: "\<forall>i \<in> ?G. \<exists>w \<in> set ws. opt_id w = i"
    by (rule conjunct1, rule conjunct2 [THEN conjunct1], rule conjunct2 [THEN conjunct2])
  define final where "final = ?final ws"
  have f': "(\<exists>x \<in> set (db_options st). opt_id w = opt_id x \<and> opt_deleted w = opt_deleted x \<and> opt_id x \<in> ?G)
            \<or> ((\<forall>x \<in> set (db_options st). opt_id x \<noteq> opt_id w) \<and> \<not> opt_deleted w)"
    if "w \<in> set ws" for w
    using f that by (rule bspec)
  have g': "\<exists>w \<in> set ws. opt_id w = i" if "i \<in> ?G" for i using g that by (rule bspec)
  have res: "(opt_poll r = poll_id p \<and> opt_id r \<notin> ?G \<longrightarrow> opt_deleted r')
         \<and> (opt_id r \<in> ?G \<longrightarrow> opt_deleted r' = opt_deleted r)"
    if "r \<in> set (db_options st)" "r' \<in> set final" "opt_id r' = opt_id r" for r r'
    by (rule handler_table_result [where key = opt_id and del = opt_deleted
          and mark = "\<lambda>r. r\<lparr>opt_deleted := True\<rparr>" and rows = "db_options st" and ws = ws
          and G = ?G and final = final and in_parent = "\<lambda>r. opt_poll r = poll_id p"
          and hide = "hide_deleted env", OF _ _ dist f' g' final_def that])
      simp_all
  have keys: "opt_id ` set (db_options st) \<subseteq> opt_id ` set final"
    unfolding final_def by (rule handler_table_keys) simp
  have "handle_options env (poll_id p) data' cur = (Inr (), cur\<lparr>db_options := final\<rparr>)"
    using h by (simp only: final_def)
  then show ?thesis using res keys
    by (intro exI [of _ "cur\<lparr>db_options := final\<rparr>"]) simp
qed

lemma fold_image_soft_delete:
  "fold image_soft_delete xs st =
     st\<lparr>db_images := map (\<lambda>r. if \<exists>y \<in> set xs. img_id y = img_id r then r\<lparr>img_deleted := True\<rparr> else r)
                          (db_images st)\<rparr>"
proof (induction xs arbitrary: st)
  case Nil
  then show ?case by simp
next
  case (Cons x xs)
  show ?case by (simp add: Cons.IH) (auto simp: image_soft_delete_def)
qed

lemma image_save_step:
  "\<exists>w. SectionImageCreateUpdateSerializer_save env found imd sec cur
          = (Inr (img_id w), cur\<lparr>db_images := upsert img_id w (db_images cur)\<rparr>)
      \<and> (case found of
            Some x \<Rightarrow> img_id w = img_id x \<and> img_deleted w = img_deleted x
          | None \<Rightarrow> (\<forall>x \<in> set (db_images cur). img_id x \<noteq> img_id w) \<and> \<not> img_deleted w)"
proof (cases found)
  case None
  define w where "w = \<lparr>img_id = next_id (map img_id (db_images cur)), img_section = sec,
                     img_ordering = (case imd_ordering imd of None \<Rightarrow> default_image_ordering env | Some v \<Rightarrow> v),
                     img_deleted = False, img_title = imd_title imd,
                     img_image = (case imd_image imd of None \<Rightarrow> [] | Some c \<Rightarrow> c)\<rparr>"
  have f: "img_id w \<notin> img_id ` set (db_images cur)"
    using next_id_fresh [of "map img_id (db_images cur)"] by (simp add: w_def)
  then have f': "\<forall>x \<in> set (db_images cur). img_id x \<noteq> img_id w" by (metis image_eqI)
  have "SectionImageCreateUpdateSerializer_save env found imd sec cur
          = (Inr (img_id w), cur\<lparr>db_images := upsert img_id w (db_images cur)\<rparr>)"
    by (simp add: SectionImageCreateUpdateSerializer_save_def None upsert_fresh [OF f] w_def [symmetric])
  moreover have "\<not> img_deleted w" by (simp add: w_def)
  ultimately show ?thesis using f' None by (intro exI [of _ w]) simp
next
  case (Some x)
  define w where "w = x\<lparr>img_title := imd_title imd,
                      img_image := (case imd_image imd of None \<Rightarrow> img_image x | Some c \<Rightarrow> c),
                      img_ordering := (case imd_ordering imd of None \<Rightarrow> img_ordering x | Some v \<Rightarrow> v),
                      img_section := sec\<rparr>"
  have "SectionImageCreateUpdateSerializer_save env found imd sec cur
          = (Inr (img_id w), cur\<lparr>db_images := upsert img_id w (db_images cur)\<rparr>)"
    by (simp add: SectionImageCreateUpdateSerializer_save_def Some w_def [symmetric] Let_def)
  moreover have "img_id w = img_id x \<and> img_deleted w = img_deleted x" by (simp add: w_def)
  ultimately show ?thesis using Some by (intro exI [of _ w]) simp
qed

lemma validate_images_from_Cons_aux:
  assumes "validate_images_from env inst st k (od # rest) = Inr data'"
  shows "\<exists>rest'.
      data' = od\<lparr>imd_ordering := Some (int k),
               imd_serializer := Some (SectionImageCreateUpdateSerializer_save env
                  (if pk_given (imd_id od)
                   then find (\<lambda>r. img_id r = the (imd_id od)) (section_images env (sec_id (the inst)) st)
                   else None)
                  (od\<lparr>imd_ordering := Some (int k)\<rparr>))\<rparr> # rest'
    \<and> validate_images_from env inst st (Suc k) rest = Inr rest'
    \<and> (pk_given (imd_id od) \<longrightarrow> inst \<noteq> None
         \<and> find (\<lambda>r. img_id r = the (imd_id od)) (section_images env (sec_id (the inst)) st) \<noteq> None)"
  using assms by (auto simp: Let_def split: if_splits sum.splits option.splits) metis

lemma validate_images_from_Cons:
  assumes "validate_images_from env inst st k (od # rest) = Inr data'"
  shows "\<exists>found rest'.
      data' = od\<lparr>imd_ordering := Some (int k),
               imd_serializer := Some (SectionImageCreateUpdateSerializer_save env found
                                        (od\<lparr>imd_ordering := Some (int k)\<rparr>))\<rparr> # rest'
    \<and> validate_images_from env inst st (Suc k) rest = Inr rest'
    \<and> (pk_given (imd_id od) \<longrightarrow>
           (\<exists>p x. inst = Some p \<and> x \<in> set (section_images env (sec_id p) st)
                 \<and> img_id x = the (imd_id od) \<and> found = Some x))
    \<and> (\<not> pk_given (imd_id od) \<longrightarrow> found = None)"
proof -
  define found where "found = (if pk_given (imd_id od)
                   then find (\<lambda>r. img_id r = the (imd_id od)) (section_images env (sec_id (the inst)) st)
                   else None)"
  from validate_images_from_Cons_aux [OF assms] obtain rest' where
    d: "data' = od\<lparr>imd_ordering := Some (int k),
               imd_serializer := Some (SectionImageCreateUpdateSerializer_save env found
                                        (od\<lparr>imd_ordering := Some (int k)\<rparr>))\<rparr> # rest'"
    and r: "validate_images_from env inst st (Suc k) rest = Inr rest'"
    and g: "pk_given (imd_id od) \<longrightarrow> inst \<noteq> None
         \<and> find (\<lambda>r. img_id r = the (imd_id od)) (section_images env (sec_id (the inst)) st) \<noteq> None"
    unfolding found_def by blast
  have "\<exists>p x. inst = Some p \<and> x \<in> set (section_images env (sec_id p) st)
                 \<and> img_id x = the (imd_id od) \<and> found = Some x" if t: "pk_given (imd_id od)"
  proof -
    from g t obtain p x where p: "inst = Some p"
      and f: "find (\<lambda>r. img_id r = the (imd_id od)) (section_images env (sec_id (the inst)) st) = Some x"
      by auto
    from find_SomeD [OF f] have "x \<in> set (section_images env (sec_id p) st)" "img_id x = the (imd_id od)"
      using p by simp_all
    moreover have "found = Some x" using f t by (simp add: found_def)
    ultimately show ?thesis using p by blast
  qed
  moreover have "\<not> pk_given (imd_id od) \<longrightarrow> found = None" by (simp add: found_def)
  ultimately show ?thesis using d r by blast
qed

lemma section_images_subset: "x \<in> set (section_images env sec st) \<Longrightarrow> x \<in> set (db_images st)"
  by (simp add: section_images_def)

lemma save_images_validated:
  assumes "validate_images_from env inst st k data = Inr data'"
  shows "\<exists>ws. save_images sec data' cur
            = (Inr (map img_id ws), cur\<lparr>db_images := fold (upsert img_id) ws (db_images cur)\<rparr>)
      \<and> (\<forall>w \<in> set ws.
            (\<exists>x \<in> set (db_images st). img_id w = img_id x
                   \<and> img_deleted w = img_deleted x \<and> img_id x \<in> given_ids (map imd_id data))
            \<or> ((\<forall>x \<in> set (db_images cur). img_id x \<noteq> img_id w) \<and> \<not> img_deleted w))
      \<and> (\<forall>i \<in> given_ids (map imd_id data). \<exists>w \<in> set ws. img_id w = i)"
  using assms
proof (induction data arbitrary: k data' cur)
  case Nil
  then show ?case by (auto simp: given_ids_def intro!: exI [of _ "[]"])
next
  case (Cons od rest)
  from Cons.prems obtain found rest' where
    d: "data' = od\<lparr>imd_ordering := Some (int k),
               imd_serializer := Some (SectionImageCreateUpdateSerializer_save env found
                                        (od\<lparr>imd_ordering := Some (int k)\<rparr>))\<rparr> # rest'"
    and r: "validate_images_from env inst st (Suc k) rest = Inr rest'"
    and g: "pk_given (imd_id od) \<Longrightarrow>
           \<exists>p x. inst = Some p \<and> x \<in> set (section_images env (sec_id p) st)
                 \<and> img_id x = the (imd_id od) \<and> found = Some x"
    and n: "\<not> pk_given (imd_id od) \<Longrightarrow> found = None"
    using validate_images_from_Cons [of env inst st k od rest data'] by blast
  obtain w where
    s: "SectionImageCreateUpdateSerializer_save env found (od\<lparr>imd_ordering := Some (int k)\<rparr>) sec cur
          = (Inr (img_id w), cur\<lparr>db_images := upsert img_id w (db_images cur)\<rparr>)"
    and c: "case found of
            Some x \<Rightarrow> img_id w = img_id x \<and> img_deleted w = img_deleted x
          | None \<Rightarrow> (\<forall>x \<in> set (db_images cur). img_id x \<noteq> img_id w) \<and> \<not> img_deleted w"
    using image_save_step by blast
  define cur1 where "cur1 = cur\<lparr>db_images := upsert img_id w (db_images cur)\<rparr>"
  from Cons.IH [OF r, of cur1] obtain ws where
    i: "save_images sec rest' cur1
          = (Inr (map img_id ws), cur1\<lparr>db_images := fold (upsert img_id) ws (db_images cur1)\<rparr>)"
    and f: "\<forall>w \<in> set ws.
            (\<exists>x \<in> set (db_images st). img_id w = img_id x
                   \<and> img_deleted w = img_deleted x \<and> img_id x \<in> given_ids (map imd_id rest))
            \<or> ((\<forall>x \<in> set (db_images cur1). img_id x \<noteq> img_id w) \<and> \<not> img_deleted w)"
    and h: "\<forall>i \<in> given_ids (map imd_id rest). \<exists>w \<in> set ws. img_id w = i"
    by blast
  have sub: "img_id ` set (db_images cur) \<subseteq> img_id ` set (db_images cur1)"
    by (auto simp: cur1_def upsert_keys_image)
  have A: "save_images sec data' cur
            = (Inr (map img_id (w # ws)), cur\<lparr>db_images := fold (upsert img_id) (w # ws) (db_images cur)\<rparr>)"
    using s i by (simp add: d cur1_def)
  have gsub: "given_ids (map imd_id rest) \<subseteq> given_ids (map imd_id (od # rest))"
    by (auto simp: given_ids_Cons)
  have B: "\<forall>w' \<in> set (w # ws).
            (\<exists>x \<in> set (db_images st). img_id w' = img_id x
                   \<and> img_deleted w' = img_deleted x \<and> img_id x \<in> given_ids (map imd_id (od # rest)))
            \<or> ((\<forall>x \<in> set (db_images cur). img_id x \<noteq> img_id w') \<and> \<not> img_deleted w')"
  proof
    fix w' assume "w' \<in> set (w # ws)"
    then consider "w' = w" | "w' \<in> set ws" by auto
    then show "(\<exists>x \<in> set (db_images st). img_id w' = img_id x
                   \<and> img_deleted w' = img_deleted x \<and> img_id x \<in> given_ids (map imd_id (od # rest)))
            \<or> ((\<forall>x \<in> set (db_images cur). img_id x \<noteq> img_id w') \<and> \<not> img_deleted w')"
    proof cases
      case 1
      show ?thesis
      proof (cases "pk_given (imd_id od)")
        case True
        from g [OF True] obtain p x where "inst = Some p" and px: "x \<in> set (section_images env (sec_id p) st)"
          "img_id x = the (imd_id od)" "found = Some x" by blast
        have xin: "x \<in> set (db_images st)" using px(1) by (rule section_images_subset)
        have gi: "img_id x \<in> given_ids (map imd_id (od # rest))"
          using True px(2) by (simp add: given_ids_Cons)
        have wx: "img_id w' = img_id x \<and> img_deleted w' = img_deleted x"
          using c px(3) 1 by simp
        have "\<exists>x \<in> set (db_images st). img_id w' = img_id x
                   \<and> img_deleted w' = img_deleted x \<and> img_id x \<in> given_ids (map imd_id (od # rest))"
          using xin wx gi by (intro bexI [of _ x] conjI) simp_all
        then show ?thesis ..
      next
        case False
        then show ?thesis using n c 1 by simp
      qed
    next
      case 2
      with f have "(\<exists>x \<in> set (db_images st). img_id w' = img_id x
                   \<and> img_deleted w' = img_deleted x \<and> img_id x \<in> given_ids (map imd_id rest))
            \<or> ((\<forall>x \<in> set (db_images cur1). img_id x \<noteq> img_id w') \<and> \<not> img_deleted w')" by blast
      then show ?thesis
      proof
        assume "\<exists>x \<in> set (db_images st). img_id w' = img_id x
                   \<and> img_deleted w' = img_deleted x \<and> img_id x \<in> given_ids (map imd_id rest)"
        then show ?thesis using gsub by blast
      next
        assume a: "(\<forall>x \<in> set (db_images cur1). img_id x \<noteq> img_id w') \<and> \<not> img_deleted w'"
        have "\<forall>x \<in> set (db_images cur). img_id x \<noteq> img_id w'"
        proof
          fix x assume "x \<in> set (db_images cur)"
          then have "img_id x \<in> img_id ` set (db_images cur1)" using sub by blast
          then obtain y where "y \<in> set (db_images cur1)" "img_id y = img_id x" by (metis imageE)
          then show "img_id x \<noteq> img_id w'" using a by metis
        qed
        then show ?thesis using a by blast
      qed
    qed
  qed
  have C: "\<forall>i \<in> given_ids (map imd_id (od # rest)). \<exists>w' \<in> set (w # ws). img_id w' = i"
  proof
    fix i assume "i \<in> given_ids (map imd_id (od # rest))"
    then consider "pk_given (imd_id od)" "i = the (imd_id od)" | "i \<in> given_ids (map imd_id rest)"
      by (auto simp: given_ids_Cons split: if_splits)
    then show "\<exists>w' \<in> set (w # ws). img_id w' = i"
    proof cases
      case 1
      from g [OF 1(1)] obtain x where "img_id x = the (imd_id od)" "found = Some x" by blast
      then show ?thesis using c 1 by auto
    next
      case 2
      then show ?thesis using h by auto
    qed
  qed
  show ?case by (rule exI [of _ "w # ws"]) (intro conjI A B C)
qed

lemma handle_images_normal:
  assumes "validate_images_from env inst st k data = Inr data'"
  shows "\<exists>ws. handle_images env sec data' cur =
      (Inr sec, cur\<lparr>db_images :=
         map (\<lambda>r. if \<exists>y \<in> set (fold (upsert img_id) ws (db_images cur)).
                       img_id y = img_id r \<and> img_section y = sec \<and> (hide_deleted env \<longrightarrow> \<not> img_deleted y)
                       \<and> (\<forall>w \<in> set ws. img_id w \<noteq> img_id y)
                   then r\<lparr>img_deleted := True\<rparr> else r)
             (fold (upsert img_id) ws (db_images cur))\<rparr>)
      \<and> (\<forall>w \<in> set ws.
            (\<exists>x \<in> set (db_images st). img_id w = img_id x
                   \<and> img_deleted w = img_deleted x \<and> img_id x \<in> given_ids (map imd_id data))
            \<or> ((\<forall>x \<in> set (db_images cur). img_id x \<noteq> img_id w) \<and> \<not> img_deleted w))
      \<and> (\<forall>i \<in> given_ids (map imd_id data). \<exists>w \<in> set ws. img_id w = i)"
proof -
  from save_images_validated [OF assms, of sec cur] obtain ws where
    s: "save_images sec data' cur
            = (Inr (map img_id ws), cur\<lparr>db_images := fold (upsert img_id) ws (db_images cur)\<rparr>)"
    and f: "\<forall>w \<in> set ws.
            (\<exists>x \<in> set (db_images st). img_id w = img_id x
                   \<and> img_deleted w = img_deleted x \<and> img_id x \<in> given_ids (map imd_id data))
            \<or> ((\<forall>x \<in> set (db_images cur). img_id x \<noteq> img_id w) \<and> \<not> img_deleted w)"
    and g: "\<forall>i \<in> given_ids (map imd_id data). \<exists>w \<in> set ws. img_id w = i"
    by blast
  define rows' where "rows' = fold (upsert img_id) ws (db_images cur)"
  have e: "(\<exists>y \<in> set (filter (\<lambda>x. img_section x = sec \<and> (hide_deleted env \<longrightarrow> \<not> img_deleted x)
                                    \<and> img_id x \<notin> set (map img_id ws)) rows').
              img_id y = img_id r)
        \<longleftrightarrow> (\<exists>y \<in> set rows'. img_id y = img_id r \<and> img_section y = sec
                 \<and> (hide_deleted env \<longrightarrow> \<not> img_deleted y) \<and> (\<forall>w \<in> set ws. img_id w \<noteq> img_id y))" for r
    by (auto simp: image_iff) metis+
  have "handle_images env sec data' cur =
      (Inr sec, cur\<lparr>db_images :=
         map (\<lambda>r. if \<exists>y \<in> set rows'.
                       img_id y = img_id r \<and> img_section y = sec \<and> (hide_deleted env \<longrightarrow> \<not> img_deleted y)
                       \<and> (\<forall>w \<in> set ws. img_id w \<noteq> img_id y)
                   then r\<lparr>img_deleted := True\<rparr> else r) rows'\<rparr>)"
    unfolding handle_images_def s
    by (simp add: fold_image_soft_delete section_images_def rows'_def [symmetric] e del: set_filter set_map)
  then show ?thesis using f g unfolding rows'_def
    by (intro exI [of _ ws] conjI)
qed

lemma handle_images_frame:
  assumes "validate_images_from env inst st k data = Inr data'"
  shows "\<exists>imgs'. handle_images env sec data' cur = (Inr sec, cur\<lparr>db_images := imgs'\<rparr>)
      \<and> img_id ` set (db_images cur) \<subseteq> img_id ` set imgs'"
proof -
  let ?final = "\<lambda>ws. map (\<lambda>r. if \<exists>y \<in> set (fold (upsert img_id) ws (db_images cur)).
                       img_id y = img_id r \<and> img_section y = sec \<and> (hide_deleted env \<longrightarrow> \<not> img_deleted y)
                       \<and> (\<forall>w \<in> set ws. img_id w \<noteq> img_id y)
                   then r\<lparr>img_deleted := True\<rparr> else r)
             (fold (upsert img_id) ws (db_images cur))"
  from handle_images_normal [OF assms, of sec cur] obtain ws where
    hfg: "handle_images env sec data' cur = (Inr sec, cur\<lparr>db_images := ?final ws\<rparr>)
      \<and> (\<forall>w \<in> set ws.
            (\<exists>x \<in> set (db_images st). img_id w = img_id x
                   \<and> img_deleted w = img_deleted x \<and> img_id x \<in> given_ids (map imd_id data))
            \<or> ((\<forall>x \<in> set (db_images cur). img_id x \<noteq> img_id w) \<and> \<not> img_deleted w))
      \<and> (\<forall>i \<in> given_ids (map imd_id data). \<exists>w \<in> set ws. img_id w = i)" ..
  then have h: "handle_images env sec data' cur = (Inr sec, cur\<lparr>db_images := ?final ws\<rparr>)"
    by (rule conjunct1)
  have keys: "img_id ` set (db_images cur) \<subseteq> img_id ` set (?final ws)"
    by (rule handler_table_keys) simp
  show ?thesis by (rule exI [of _ "?final ws"]) (rule conjI [OF h keys])
qed

lemma handle_images_validated:
  assumes v: "validate_images env (Some p) st data = Inr data'"
    and dist: "distinct (map img_id (db_images st))"
    and eq: "db_images cur = db_images st"
  shows "\<exists>st'. handle_images env (sec_id p) data' cur = (Inr (sec_id p), st')
    \<and> db_sections st' = db_sections cur \<and> db_options st' = db_options cur \<and> db_polls st' = db_polls cur
    \<and> img_id ` set (db_images st) \<subseteq> img_id ` set (db_images st')
    \<and> (\<forall>r \<in> set (db_images st). \<forall>r' \<in> set (db_images st'). img_id r' = img_id r \<longrightarrow>
         (img_section r = sec_id p \<and> img_id r \<notin> given_ids (map imd_id data) \<longrightarrow> img_deleted r')
         \<and> (img_id r \<in> given_ids (map imd_id data) \<longrightarrow> img_deleted r' = img_deleted r))"
proof -
  from v have v': "validate_images_from env (Some p) st 0 data = Inr data'"
    by (simp add: validate_images_def)
  let ?G = "given_ids (map imd_id data)"
  let ?final = "\<lambda>ws. map (\<lambda>r. if \<exists>y \<in> set (fold (upsert img_id) ws (db_images st)).
                       img_id y = img_id r \<and> img_section y = sec_id p \<and> (hide_deleted env \<longrightarrow> \<not> img_deleted y)
                       \<and> (\<forall>w \<in> set ws. img_id w \<noteq> img_id y)
                   then r\<lparr>img_deleted := True\<rparr> else r)
             (fold (upsert img_id) ws (db_images st))"
  from handle_images_normal [OF v', of "sec_id p" cur, unfolded eq] obtain ws where
    hfg: "handle_images env (sec_id p) data' cur = (Inr (sec_id p), cur\<lparr>db_images := ?final ws\<rparr>)
      \<and> (\<forall>w \<in> set ws.
            (\<exists>x \<in> set (db_images st). img_id w = img_id x
                   \<and> img_deleted w = img_deleted x \<and> img_id x \<in> ?G)
            \<or> ((\<forall>x \<in> set (db_images st). img_id x \<noteq> img_id w) \<and> \<not> img_deleted w))
      \<and> (\<forall>i \<in> ?G. \<exists>w \<in> set ws. img_id w = i)" ..
  then have h: "handle_images env (sec_id p) data' cur = (Inr (sec_id p), cur\<lparr>db_images := ?final ws\<rparr>)"
    and f: "\<forall>w \<in> set ws.
            (\<exists>x \<in> set (db_images st). img_id w = img_id x
                   \<and> img_deleted w = img_deleted x \<and> img_id x \<in> ?G)
            \<or> ((\<forall>x \<in> set (db_images st). img_id x \<noteq> img_id w) \<and> \<not> img_deleted w)"
    and g: "\<forall>i \<in> ?G. \<exists>w \<in> set ws. img_id w = i"
    by (rule conjunct1, rule conjunct2 [THEN conjunct1], rule conjunct2 [THEN conjunct2])
  define final where "final = ?final ws"
  have f': "(\<exists>x \<in> set (db_images st). img_id w = img_id x \<and> img_deleted w = img_deleted x \<and> img_id x \<in> ?G)
            \<or> ((\<forall>x \<in> set (db_images st). img_id x \<noteq> img_id w) \<and> \<not> img_deleted w)"
    if "w \<in> set ws" for w
    using f that by (rule bspec)
  have g': "\<exists>w \<in> set ws. img_id w = i" if "i \<in> ?G" for i using g that by (rule bspec)
  have res: "(img_section r = sec_id p \<and> img_id r \<notin> ?G \<longrightarrow> img_deleted r')
         \<and> (img_id r \<in> ?G \<longrightarrow> img_deleted r' = img_deleted r)"
    if "r \<in> set (db_images st)" "r' \<in> set final" "img_id r' = img_id r" for r r'
    by (rule handler_table_result [where key = img_id and del = img_deleted
          and mark = "\<lambda>r. r\<lparr>img_deleted := True\<rparr>" and rows = "db_images st" and ws = ws
          and G = ?G and final = final and in_parent = "\<lambda>r. img_section r = sec_id p"
          and hide = "hide_deleted env", OF _ _ dist f' g' final_def that])
      simp_all
  have keys: "img_id ` set (db_images st) \<subseteq> img_id ` set final"
    unfolding final_def by (rule handler_table_keys) simp
  have "handle_images env (sec_id p) data' cur = (Inr (sec_id p), cur\<lparr>db_images := final\<rparr>)"
    using h by (simp only: final_def)
  then show ?thesis using res keys
    by (intro exI [of _ "cur\<lparr>db_images := final\<rparr>"]) simp
qed

lemma fold_poll_soft_delete:
  "fold poll_soft_delete xs st =
     st\<lparr>db_polls := map (\<lambda>r. if \<exists>y \<in> set xs. poll_id y = poll_id r then r\<lparr>poll_deleted := True\<rparr> else r)
                          (db_polls st)\<rparr>"
proof (induction xs arbitrary: st)
  case Nil
  then show ?case by simp
next
  case (Cons x xs)
  show ?case by (simp add: Cons.IH) (auto simp: poll_soft_delete_def)
qed

lemma section_polls_subset: "x \<in> set (section_polls env sec st) \<Longrightarrow> x \<in> set (db_polls st)"
  by (simp add: section_polls_def)

lemma is_valid_options:
  assumes "SectionPollSerializer_is_valid env found st pd = Inr validated"
  shows "\<exists>os os'. pd_options validated = Some os' \<and> validate_options_from env found st 0 os = Inr os'"
  using assms
  by (auto simp: SectionPollSerializer_is_valid_def validate_options_def
      split: option.splits if_splits sum.splits)

lemma poll_save_step:
  assumes "SectionPollSerializer_is_valid env found st pd = Inr validated"
  shows "\<exists>w opts'. SectionPollSerializer_save env found validated sec ordr cur
          = (Inr (poll_id w), cur\<lparr>db_polls := upsert poll_id w (db_polls cur), db_options := opts'\<rparr>)
      \<and> opt_id ` set (db_options cur) \<subseteq> opt_id ` set opts'
      \<and> (case found of
            Some x \<Rightarrow> poll_id w = poll_id x \<and> poll_deleted w = poll_deleted x
          | None \<Rightarrow> (\<forall>x \<in> set (db_polls cur). poll_id x \<noteq> poll_id w) \<and> \<not> poll_deleted w)"
proof -
  from is_valid_options [OF assms] obtain os os' where
    o: "pd_options validated = Some os'"
    and v: "validate_options_from env found st 0 os = Inr os'" by blast
  show ?thesis
  proof (cases found)
    case None
    define w where "w = \<lparr>poll_id = next_id (map poll_id (db_polls cur)), poll_section = sec,
                   poll_ordering = ordr, poll_deleted = False,
                   poll_text = (case pd_text validated of None \<Rightarrow> [] | Some t \<Rightarrow> t),
                   poll_n_answers = 0, poll_is_independent = pd_is_independent validated\<rparr>"
    define st1 where "st1 = cur\<lparr>db_polls := db_polls cur @ [w]\<rparr>"
    have f: "poll_id w \<notin> poll_id ` set (db_polls cur)"
      using next_id_fresh [of "map poll_id (db_polls cur)"] by (simp add: w_def)
    then have f': "\<forall>x \<in> set (db_polls cur). poll_id x \<noteq> poll_id w" by (metis image_eqI)
    from handle_options_frame [OF v, of "poll_id w" st1] obtain opts' where
      h: "handle_options env (poll_id w) os' st1 = (Inr (), st1\<lparr>db_options := opts'\<rparr>)"
      and k: "opt_id ` set (db_options st1) \<subseteq> opt_id ` set opts'" by blast
    have "SectionPollSerializer_save env found validated sec ordr cur
          = (Inr (poll_id w), st1\<lparr>db_options := opts'\<rparr>)"
      using h unfolding w_def st1_def
      by (simp add: SectionPollSerializer_save_def SectionPollSerializer_create_def None atomic_def
          o Let_def)
    moreover have "st1\<lparr>db_options := opts'\<rparr>
        = cur\<lparr>db_polls := upsert poll_id w (db_polls cur), db_options := opts'\<rparr>"
      by (simp add: st1_def upsert_fresh [OF f])
    moreover have "opt_id ` set (db_options cur) \<subseteq> opt_id ` set opts'" using k by (simp add: st1_def)
    moreover have "\<not> poll_deleted w" by (simp add: w_def)
    ultimately show ?thesis using f' None by (intro exI [of _ w] exI [of _ opts']) simp
  next
    case (Some x)
    define w where "w = x\<lparr>poll_text := (case pd_text validated of None \<Rightarrow> poll_text x | Some t \<Rightarrow> t),
                       poll_is_independent := pd_is_independent validated,
                       poll_section := sec, poll_ordering := ordr\<rparr>"
    define st1 where "st1 = cur\<lparr>db_polls := upsert poll_id w (db_polls cur)\<rparr>"
    from handle_options_frame [OF v, of "poll_id w" st1] obtain opts' where
      h: "handle_options env (poll_id w) os' st1 = (Inr (), st1\<lparr>db_options := opts'\<rparr>)"
      and k: "opt_id ` set (db_options st1) \<subseteq> opt_id ` set opts'" by blast
    have "SectionPollSerializer_save env found validated sec ordr cur
          = (Inr (poll_id w), st1\<lparr>db_options := opts'\<rparr>)"
      using h
      by (simp add: SectionPollSerializer_save_def SectionPollSerializer_update_def Some atomic_def
          o w_def [symmetric] st1_def [symmetric] Let_def)
    moreover have "st1\<lparr>db_options := opts'\<rparr>
        = cur\<lparr>db_polls := upsert poll_id w (db_polls cur), db_options := opts'\<rparr>"
      by (simp add: st1_def)
    moreover have "opt_id ` set (db_options cur) \<subseteq> opt_id ` set opts'" using k by (simp add: st1_def)
    moreover have "poll_id w = poll_id x \<and> poll_deleted w = poll_deleted x" by (simp add: w_def)
    ultimately show ?thesis using Some by (intro exI [of _ w] exI [of _ opts']) simp
  qed
qed

lemma validate_questions_from_Cons_aux:
  assumes "validate_questions_from env inst st k (pd # rest) = Inr data'"
  shows "\<exists>rest' validated.
      data' = pd\<lparr>pd_ordering := Some (int k + 1),
               pd_serializer := Some (SectionPollSerializer_save env
                  (if pk_given (pd_id pd)
                   then find (\<lambda>r. poll_id r = the (pd_id pd)) (section_polls env (sec_id (the inst)) st)
                   else None) validated)\<rparr> # rest'
    \<and> SectionPollSerializer_is_valid env
          (if pk_given (pd_id pd)
           then find (\<lambda>r. poll_id r = the (pd_id pd)) (section_polls env (sec_id (the inst)) st)
           else None) st (pd\<lparr>pd_ordering := Some (int k + 1)\<rparr>) = Inr validated
    \<and> validate_questions_from env inst st (Suc k) rest = Inr rest'
    \<and> (pk_given (pd_id pd) \<longrightarrow> inst \<noteq> None
         \<and> find (\<lambda>r. poll_id r = the (pd_id pd)) (section_polls env (sec_id (the inst)) st) \<noteq> None)"
  using assms by (auto simp: Let_def split: if_splits sum.splits option.splits)

lemma validate_questions_from_Cons:
  assumes "validate_questions_from env inst st k (pd # rest) = Inr data'"
  shows "\<exists>found validated rest'.
      data' = pd\<lparr>pd_ordering := Some (int k + 1),
               pd_serializer := Some (SectionPollSerializer_save env found validated)\<rparr> # rest'
    \<and> SectionPollSerializer_is_valid env found st (pd\<lparr>pd_ordering := Some (int k + 1)\<rparr>) = Inr validated
    \<and> validate_questions_from env inst st (Suc k) rest = Inr rest'
    \<and> (pk_given (pd_id pd) \<longrightarrow>
           (\<exists>p x. inst = Some p \<and> x \<in> set (section_polls env (sec_id p) st)
                 \<and> poll_id x = the (pd_id pd) \<and> found = Some x))
    \<and> (\<not> pk_given (pd_id pd) \<longrightarrow> found = None)"
proof -
  define found where "found = (if pk_given (pd_id pd)
                   then find (\<lambda>r. poll_id r = the (pd_id pd)) (section_polls env (sec_id (the inst)) st)
                   else None)"
  from validate_questions_from_Cons_aux [OF assms] obtain rest' validated where
    d: "data' = pd\<lparr>pd_ordering := Some (int k + 1),
               pd_serializer := Some (SectionPollSerializer_save env found validated)\<rparr> # rest'"
    and i: "SectionPollSerializer_is_valid env found st (pd\<lparr>pd_ordering := Some (int k + 1)\<rparr>) = Inr validated"
    and r: "validate_questions_from env inst st (Suc k) rest = Inr rest'"
    and g: "pk_given (pd_id pd) \<longrightarrow> inst \<noteq> None
         \<and> find (\<lambda>r. poll_id r = the (pd_id pd)) (section_polls env (sec_id (the inst)) st) \<noteq> None"
    unfolding found_def by blast
  have "\<exists>p x. inst = Some p \<and> x \<in> set (section_polls env (sec_id p) st)
                 \<and> poll_id x = the (pd_id pd) \<and> found = Some x" if t: "pk_given (pd_id pd)"
  proof -
    from g t obtain p x where p: "inst = Some p"
      and f: "find (\<lambda>r. poll_id r = the (pd_id pd)) (section_polls env (sec_id (the inst)) st) = Some x"
      by auto
    from find_SomeD [OF f] have "x \<in> set (section_polls env (sec_id p) st)" "poll_id x = the (pd_id pd)"
      using p by simp_all
    moreover have "found = Some x" using f t by (simp add: found_def)
    ultimately show ?thesis using p by blast
  qed
  moreover have "\<not> pk_given (pd_id pd) \<longrightarrow> found = None" by (simp add: found_def)
  ultimately show ?thesis using d i r by blast
qed

lemma save_questions_validated:
  assumes "validate_questions_from env inst st k data = Inr data'"
  shows "\<exists>ws opts'. save_questions sec data' cur
            = (Inr (map poll_id ws),
               cur\<lparr>db_polls := fold (upsert poll_id) ws (db_polls cur), db_options := opts'\<rparr>)
      \<and> opt_id ` set (db_options cur) \<subseteq> opt_id ` set opts'
      \<and> (\<forall>w \<in> set ws.
            (\<exists>x \<in> set (db_polls st). poll_id w = poll_id x
                   \<and> poll_deleted w = poll_deleted x \<and> poll_id x \<in> given_ids (map pd_id data))
            \<or> ((\<forall>x \<in> set (db_polls cur). poll_id x \<noteq> poll_id w) \<and> \<not> poll_deleted w))
      \<and> (\<forall>i \<in> given_ids (map pd_id data). \<exists>w \<in> set ws. poll_id w = i)"
  using assms
proof (induction data arbitrary: k data' cur)
  case Nil
  have "cur\<lparr>db_polls := db_polls cur, db_options := db_options cur\<rparr> = cur" by simp
  with Nil show ?case
    by (intro exI [of _ "[]"] exI [of _ "db_options cur"]) (simp add: given_ids_def)
next
  case (Cons pd rest)
  from validate_questions_from_Cons [OF Cons.prems] obtain found validated rest' where
    d: "data' = pd\<lparr>pd_ordering := Some (int k + 1),
               pd_serializer := Some (SectionPollSerializer_save env found validated)\<rparr> # rest'"
    and iv: "SectionPollSerializer_is_valid env found st (pd\<lparr>pd_ordering := Some (int k + 1)\<rparr>) = Inr validated"
    and r: "validate_questions_from env inst st (Suc k) rest = Inr rest'"
    and g: "pk_given (pd_id pd) \<longrightarrow>
           (\<exists>p x. inst = Some p \<and> x \<in> set (section_polls env (sec_id p) st)
                 \<and> poll_id x = the (pd_id pd) \<and> found = Some x)"
    and n: "\<not> pk_given (pd_id pd) \<longrightarrow> found = None"
    by blast
  from poll_save_step [OF iv, of sec "int k + 1" cur] obtain w o1 where
    s: "SectionPollSerializer_save env found validated sec (int k + 1) cur
          = (Inr (poll_id w), cur\<lparr>db_polls := upsert poll_id w (db_polls cur), db_options := o1\<rparr>)"
    and so: "opt_id ` set (db_options cur) \<subseteq> opt_id ` set o1"
    and c: "case found of
            Some x \<Rightarrow> poll_id w = poll_id x \<and> poll_deleted w = poll_deleted x
          | None \<Rightarrow> (\<forall>x \<in> set (db_polls cur). poll_id x \<noteq> poll_id w) \<and> \<not> poll_deleted w"
    by blast
  define cur1 where "cur1 = cur\<lparr>db_polls := upsert poll_id w (db_polls cur), db_options := o1\<rparr>"
  from Cons.IH [OF r, of cur1] obtain ws o2 where
    i: "save_questions sec rest' cur1
          = (Inr (map poll_id ws),
             cur1\<lparr>db_polls := fold (upsert poll_id) ws (db_polls cur1), db_options := o2\<rparr>)"
    and io: "opt_id ` set (db_options cur1) \<subseteq> opt_id ` set o2"
    and f: "\<forall>w \<in> set ws.
            (\<exists>x \<in> set (db_polls st). poll_id w = poll_id x
                   \<and> poll_deleted w = poll_deleted x \<and> poll_id x \<in> given_ids (map pd_id rest))
            \<or> ((\<forall>x \<in> set (db_polls cur1). poll_id x \<noteq> poll_id w) \<and> \<not> poll_deleted w)"
    and h: "\<forall>i \<in> given_ids (map pd_id rest). \<exists>w \<in> set ws. poll_id w = i"
    by blast
  have sub: "poll_id ` set (db_polls cur) \<subseteq> poll_id ` set (db_polls cur1)"
    by (auto simp: cur1_def upsert_keys_image)
  have "save_questions sec data' cur
            = (Inr (map poll_id (w # ws)),
               cur1\<lparr>db_polls := fold (upsert poll_id) ws (db_polls cur1), db_options := o2\<rparr>)"
    using s i by (simp add: d cur1_def)
  moreover have "cur1\<lparr>db_polls := fold (upsert poll_id) ws (db_polls cur1), db_options := o2\<rparr>
      = cur\<lparr>db_polls := fold (upsert poll_id) (w # ws) (db_polls cur), db_options := o2\<rparr>"
    by (simp add: cur1_def)
  ultimately have A: "save_questions sec data' cur
            = (Inr (map poll_id (w # ws)),
               cur\<lparr>db_polls := fold (upsert poll_id) (w # ws) (db_polls cur), db_options := o2\<rparr>)"
    by simp
  have O: "opt_id ` set (db_options cur) \<subseteq> opt_id ` set o2"
    using so io by (simp add: cur1_def)
  have gsub: "given_ids (map pd_id rest) \<subseteq> given_ids (map pd_id (pd # rest))"
    by (auto simp: given_ids_Cons)
  have B: "\<forall>w' \<in> set (w # ws).
            (\<exists>x \<in> set (db_polls st). poll_id w' = poll_id x
                   \<and> poll_deleted w' = poll_deleted x \<and> poll_id x \<in> given_ids (map pd_id (pd # rest)))
            \<or> ((\<forall>x \<in> set (db_polls cur). poll_id x \<noteq> poll_id w') \<and> \<not> poll_deleted w')"
  proof
    fix w' assume "w' \<in> set (w # ws)"
    then consider "w' = w" | "w' \<in> set ws" by auto
    then show "(\<exists>x \<in> set (db_polls st). poll_id w' = poll_id x
                   \<and> poll_deleted w' = poll_deleted x \<and> poll_id x \<in> given_ids (map pd_id (pd # rest)))
            \<or> ((\<forall>x \<in> set (db_polls cur). poll_id x \<noteq> poll_id w') \<and> \<not> poll_deleted w')"
    proof cases
      case 1
      show ?thesis
      proof (cases "pk_given (pd_id pd)")
        case True
        with g obtain p x where "inst = Some p" and px: "x \<in> set (section_polls env (sec_id p) st)"
          "poll_id x = the (pd_id pd)" "found = Some x" by blast
        have xin: "x \<in> set (db_polls st)" using px(1) by (rule section_polls_subset)
        have gi: "poll_id x \<in> given_ids (map pd_id (pd # rest))"
          using True px(2) by (simp add: given_ids_Cons)
        have wx: "poll_id w' = poll_id x \<and> poll_deleted w' = poll_deleted x"
          using c px(3) 1 by simp
        have "\<exists>x \<in> set (db_polls st). poll_id w' = poll_id x
                   \<and> poll_deleted w' = poll_deleted x \<and> poll_id x \<in> given_ids (map pd_id (pd # rest))"
          using xin wx gi by (intro bexI [of _ x] conjI) simp_all
        then show ?thesis ..
      next
        case False
        then show ?thesis using n c 1 by simp
      qed
    next
      case 2
      with f have "(\<exists>x \<in> set (db_polls st). poll_id w' = poll_id x
                   \<and> poll_deleted w' = poll_deleted x \<and> poll_id x \<in> given_ids (map pd_id rest))
            \<or> ((\<forall>x \<in> set (db_polls cur1). poll_id x \<noteq> poll_id w') \<and> \<not> poll_deleted w')" by blast
      then show ?thesis
      proof
        assume "\<exists>x \<in> set (db_polls st). poll_id w' = poll_id x
                   \<and> poll_deleted w' = poll_deleted x \<and> poll_id x \<in> given_ids (map pd_id rest)"
        then show ?thesis using gsub by blast
      next
        assume a: "(\<forall>x \<in> set (db_polls cur1). poll_id x \<noteq> poll_id w') \<and> \<not> poll_deleted w'"
        have "\<forall>x \<in> set (db_polls cur). poll_id x \<noteq> poll_id w'"
        proof
          fix x assume "x \<in> set (db_polls cur)"
          then have "poll_id x \<in> poll_id ` set (db_polls cur1)" using sub by blast
          then obtain y where "y \<in> set (db_polls cur1)" "poll_id y = poll_id x" by (metis imageE)
          then show "poll_id x \<noteq> poll_id w'" using a by metis
        qed
        then show ?thesis using a by blast
      qed
    qed
  qed
  have C: "\<forall>i \<in> given_ids (map pd_id (pd # rest)). \<exists>w' \<in> set (w # ws). poll_id w' = i"
  proof
    fix i assume "i \<in> given_ids (map pd_id (pd # rest))"
    then consider "pk_given (pd_id pd)" "i = the (pd_id pd)" | "i \<in> given_ids (map pd_id rest)"
      by (auto simp: given_ids_Cons split: if_splits)
    then show "\<exists>w' \<in> set (w # ws). poll_id w' = i"
    proof cases
      case 1
      with g obtain x where "poll_id x = the (pd_id pd)" "found = Some x" by blast
      then show ?thesis using c 1 by auto
    next
      case 2
      then show ?thesis using h by auto
    qed
  qed
  show ?case by (rule exI [of _ "w # ws"], rule exI [of _ o2]) (intro conjI A O B C)
qed

lemma handle_questions_normal:
  assumes "validate_questions_from env inst st k data = Inr data'"
  shows "\<exists>ws opts'. handle_questions env sec data' cur =
      (Inr (), cur\<lparr>db_polls :=
         map (\<lambda>r. if \<exists>y \<in> set (fold (upsert poll_id) ws (db_polls cur)).
                       poll_id y = poll_id r \<and> poll_section y = sec \<and> (hide_deleted env \<longrightarrow> \<not> poll_deleted y)
                       \<and> (\<forall>w \<in> set ws. poll_id w \<noteq> poll_id y)
                   then r\<lparr>poll_deleted := True\<rparr> else r)
             (fold (upsert poll_id) ws (db_polls cur)), db_options := opts'\<rparr>)
      \<and> opt_id ` set (db_options cur) \<subseteq> opt_id ` set opts'
      \<and> (\<forall>w \<in> set ws.
            (\<exists>x \<in> set (db_polls st). poll_id w = poll_id x
                   \<and> poll_deleted w = poll_deleted x \<and> poll_id x \<in> given_ids (map pd_id data))
            \<or> ((\<forall>x \<in> set (db_polls cur). poll_id x \<noteq> poll_id w) \<and> \<not> poll_deleted w))
      \<and> (\<forall>i \<in> given_ids (map pd_id data). \<exists>w \<in> set ws. poll_id w = i)"
proof -
  from save_questions_validated [OF assms, of sec cur] obtain ws opts' where
    s: "save_questions sec data' cur
            = (Inr (map poll_id ws),
               cur\<lparr>db_polls := fold (upsert poll_id) ws (db_polls cur), db_options := opts'\<rparr>)"
    and o: "opt_id ` set (db_options cur) \<subseteq> opt_id ` set opts'"
    and f: "\<forall>w \<in> set ws.
            (\<exists>x \<in> set (db_polls st). poll_id w = poll_id x
                   \<and> poll_deleted w = poll_deleted x \<and> poll_id x \<in> given_ids (map pd_id data))
            \<or> ((\<forall>x \<in> set (db_polls cur). poll_id x \<noteq> poll_id w) \<and> \<not> poll_deleted w)"
    and g: "\<forall>i \<in> given_ids (map pd_id data). \<exists>w \<in> set ws. poll_id w = i"
    by blast
  define rows' where "rows' = fold (upsert poll_id) ws (db_polls cur)"
  have e: "(\<exists>y \<in> set (filter (\<lambda>x. poll_section x = sec \<and> (hide_deleted env \<longrightarrow> \<not> poll_deleted x)
                                    \<and> poll_id x \<notin> set (map poll_id ws)) rows').
              poll_id y = poll_id r)
        \<longleftrightarrow> (\<exists>y \<in> set rows'. poll_id y = poll_id r \<and> poll_section y = sec
                 \<and> (hide_deleted env \<longrightarrow> \<not> poll_deleted y) \<and> (\<forall>w \<in> set ws. poll_id w \<noteq> poll_id y))" for r
    by (auto simp: image_iff) metis+
  have "handle_questions env sec data' cur =
      (Inr (), cur\<lparr>db_polls :=
         map (\<lambda>r. if \<exists>y \<in> set rows'.
                       poll_id y = poll_id r \<and> poll_section y = sec \<and> (hide_deleted env \<longrightarrow> \<not> poll_deleted y)
                       \<and> (\<forall>w \<in> set ws. poll_id w \<noteq> poll_id y)
                   then r\<lparr>poll_deleted := True\<rparr> else r) rows', db_options := opts'\<rparr>)"
    unfolding handle_questions_def s
    by (simp add: fold_poll_soft_delete section_polls_def rows'_def [symmetric] e del: set_filter set_map)
  then show ?thesis using o f g unfolding rows'_def
    by (intro exI [of _ ws] exI [of _ opts'] conjI)
qed

lemma handle_questions_validated:
  assumes v: "validate_questions env (Some p) st data = Inr data'"
    and dist: "distinct (map poll_id (db_polls st))"
    and eq: "db_polls cur = db_polls st"
  shows "\<exists>st'. handle_questions env (sec_id p) data' cur = (Inr (), st')
    \<and> db_sections st' = db_sections cur \<and> db_images st' = db_images cur
    \<and> opt_id ` set (db_options cur) \<subseteq> opt_id ` set (db_options st')
    \<and> poll_id ` set (db_polls st) \<subseteq> poll_id ` set (db_polls st')
    \<and> (\<forall>r \<in> set (db_polls st). \<forall>r' \<in> set (db_polls st'). poll_id r' = poll_id r \<longrightarrow>
         (poll_section r = sec_id p \<and> poll_id r \<notin> given_ids (map pd_id data) \<longrightarrow> poll_deleted r')
         \<and> (poll_id r \<in> given_ids (map pd_id data) \<longrightarrow> poll_deleted r' = poll_deleted r))"
proof -
  from v have v': "validate_questions_from env (Some p) st 0 data = Inr data'"
    by (simp add: validate_questions_def)
  let ?G = "given_ids (map pd_id data)"
  let ?final = "\<lambda>ws. map (\<lambda>r. if \<exists>y \<in> set (fold (upsert poll_id) ws (db_polls st)).
                       poll_id y = poll_id r \<and> poll_section y = sec_id p \<and> (hide_deleted env \<longrightarrow> \<not> poll_deleted y)
                       \<and> (\<forall>w \<in> set ws. poll_id w \<noteq> poll_id y)
                   then r\<lparr>poll_deleted := True\<rparr> else r)
             (fold (upsert poll_id) ws (db_polls st))"
  from handle_questions_normal [OF v', of "sec_id p" cur, unfolded eq] obtain ws opts' where
    hfg: "handle_questions env (sec_id p) data' cur = (Inr (), cur\<lparr>db_polls := ?final ws, db_options := opts'\<rparr>)
      \<and> opt_id ` set (db_options cur) \<subseteq> opt_id ` set opts'
      \<and> (\<forall>w \<in> set ws.
            (\<exists>x \<in> set (db_polls st). poll_id w = poll_id x
                   \<and> poll_deleted w = poll_deleted x \<and> poll_id x \<in> ?G)
            \<or> ((\<forall>x \<in> set (db_polls st). poll_id x \<noteq> poll_id w) \<and> \<not> poll_deleted w))
      \<and> (\<forall>i \<in> ?G. \<exists>w \<in> set ws. poll_id w = i)" by (elim exE)
  then have h: "handle_questions env (sec_id p) data' cur = (Inr (), cur\<lparr>db_polls := ?final ws, db_options := opts'\<rparr>)"
    and o: "opt_id ` set (db_options cur) \<subseteq> opt_id ` set opts'"
    and f: "\<forall>w \<in> set ws.
            (\<exists>x \<in> set (db_polls st). poll_id w = poll_id x
                   \<and> poll_deleted w = poll_deleted x \<and> poll_id x \<in> ?G)
            \<or> ((\<forall>x \<in> set (db_polls st). poll_id x \<noteq> poll_id w) \<and> \<not> poll_deleted w)"
    and g: "\<forall>i \<in> ?G. \<exists>w \<in> set ws. poll_id w = i"
    by (rule conjunct1, rule conjunct2 [THEN conjunct1], rule conjunct2 [THEN conjunct2, THEN conjunct1],
        rule conjunct2 [THEN conjunct2, THEN conjunct2])
  define final where "final = ?final ws"
  have f': "(\<exists>x \<in> set (db_polls st). poll_id w = poll_id x \<and> poll_deleted w = poll_deleted x \<and> poll_id x \<in> ?G)
            \<or> ((\<forall>x \<in> set (db_polls st). poll_id x \<noteq> poll_id w) \<and> \<not> poll_deleted w)"
    if "w \<in> set ws" for w
    using f that by (rule bspec)
  have g': "\<exists>w \<in> set ws. poll_id w = i" if "i \<in> ?G" for i using g that by (rule bspec)
  have res: "(poll_section r = sec_id p \<and> poll_id r \<notin> ?G \<longrightarrow> poll_deleted r')
         \<and> (poll_id r \<in> ?G \<longrightarrow> poll_deleted r' = poll_deleted r)"
    if "r \<in> set (db_polls st)" "r' \<in> set final" "poll_id r' = poll_id r" for r r'
    by (rule handler_table_result [where key = poll_id and del = poll_deleted
          and mark = "\<lambda>r. r\<lparr>poll_deleted := True\<rparr>" and rows = "db_polls st" and ws = ws
          and G = ?G and final = final and in_parent = "\<lambda>r. poll_section r = sec_id p"
          and hide = "hide_deleted env", OF _ _ dist f' g' final_def that])
      simp_all
  have keys: "poll_id ` set (db_polls st) \<subseteq> poll_id ` set final"
    unfolding final_def by (rule handler_table_keys) simp
  have "handle_questions env (sec_id p) data' cur = (Inr (), cur\<lparr>db_polls := final, db_options := opts'\<rparr>)"
    using h by (simp only: final_def)
  then show ?thesis using res keys o
    by (intro exI [of _ "cur\<lparr>db_polls := final, db_options := opts'\<rparr>"]) simp
qed

lemma handle_questions_frame:
  assumes "validate_questions_from env inst st k data = Inr data'"
  shows "\<exists>polls' opts'. handle_questions env sec data' cur
            = (Inr (), cur\<lparr>db_polls := polls', db_options := opts'\<rparr>)
      \<and> poll_id ` set (db_polls cur) \<subseteq> poll_id ` set polls'
      \<and> opt_id ` set (db_options cur) \<subseteq> opt_id ` set opts'"
proof -
  let ?final = "\<lambda>ws. map (\<lambda>r. if \<exists>y \<in> set (fold (upsert poll_id) ws (db_polls cur)).
                       poll_id y = poll_id r \<and> poll_section y = sec \<and> (hide_deleted env \<longrightarrow> \<not> poll_deleted y)
                       \<and> (\<forall>w \<in> set ws. poll_id w \<noteq> poll_id y)
                   then r\<lparr>poll_deleted := True\<rparr> else r)
             (fold (upsert poll_id) ws (db_polls cur))"
  from handle_questions_normal [OF assms, of sec cur] obtain ws opts' where
    hfg: "handle_questions env sec data' cur = (Inr (), cur\<lparr>db_polls := ?final ws, db_options := opts'\<rparr>)
      \<and> opt_id ` set (db_options cur) \<subseteq> opt_id ` set opts'
      \<and> (\<forall>w \<in> set ws.
            (\<exists>x \<in> set (db_polls st). poll_id w = poll_id x
                   \<and> poll_deleted w = poll_deleted x \<and> poll_id x \<in> given_ids (map pd_id data))
            \<or> ((\<forall>x \<in> set (db_polls cur). poll_id x \<noteq> poll_id w) \<and> \<not> poll_deleted w))
      \<and> (\<forall>i \<in> given_ids (map pd_id data). \<exists>w \<in> set ws. poll_id w = i)" by (elim exE)
  then have h: "handle_questions env sec data' cur = (Inr (), cur\<lparr>db_polls := ?final ws, db_options := opts'\<rparr>)"
    and o: "opt_id ` set (db_options cur) \<subseteq> opt_id ` set opts'"
    by (rule conjunct1, rule conjunct2 [THEN conjunct1])
  have keys: "poll_id ` set (db_polls cur) \<subseteq> poll_id ` set (?final ws)"
    by (rule handler_table_keys) simp
  show ?thesis
    by (rule exI [of _ "?final ws"], rule exI [of _ opts']) (intro conjI h keys o)
qed

lemma is_valid_some_options:
  assumes "SectionPollSerializer_is_valid env found st pd = Inr validated"
    and "pd_options pd = Some os"
  shows "\<exists>os'. pd_options validated = Some os' \<and> validate_options env found st os = Inr os'
      \<and> pd_text validated = pd_text pd \<and> pd_is_independent validated = pd_is_independent pd"
  using assms
  by (auto simp: SectionPollSerializer_is_valid_def split: option.splits if_splits sum.splits)

lemma poll_update_validated:
  assumes iv: "SectionPollSerializer_is_valid env (Some poll) st pd = Inr validated"
    and os: "pd_options pd = Some os"
    and dist: "distinct (map opt_id (db_options st))"
  shows "\<exists>st'. SectionPollSerializer_update env poll validated parent ordr st = (Inr (poll_id poll), st')
    \<and> db_sections st' = db_sections st \<and> db_images st' = db_images st
    \<and> db_polls st' = upsert poll_id
         (poll\<lparr>poll_text := (case pd_text pd of None \<Rightarrow> poll_text poll | Some t \<Rightarrow> t),
               poll_is_independent := pd_is_independent pd,
               poll_section := parent, poll_ordering := ordr\<rparr>) (db_polls st)
    \<and> opt_id ` set (db_options st) \<subseteq> opt_id ` set (db_options st')
    \<and> (\<forall>r \<in> set (db_options st). \<forall>r' \<in> set (db_options st'). opt_id r' = opt_id r \<longrightarrow>
         (opt_poll r = poll_id poll \<and> opt_id r \<notin> given_ids (map od_id os) \<longrightarrow> opt_deleted r')
         \<and> (opt_id r \<in> given_ids (map od_id os) \<longrightarrow> opt_deleted r' = opt_deleted r))"
proof -
  from is_valid_some_options [OF iv os] obtain os' where
    o: "pd_options validated = Some os'"
    and v: "validate_options env (Some poll) st os = Inr os'"
    and t: "pd_text validated = pd_text pd" "pd_is_independent validated = pd_is_independent pd"
    by blast
  define w where "w = poll\<lparr>poll_text := (case pd_text pd of None \<Rightarrow> poll_text poll | Some t \<Rightarrow> t),
               poll_is_independent := pd_is_independent pd,
               poll_section := parent, poll_ordering := ordr\<rparr>"
  define st1 where "st1 = st\<lparr>db_polls := upsert poll_id w (db_polls st)\<rparr>"
  have eq: "db_options st1 = db_options st" by (simp add: st1_def)
  from handle_options_validated [OF v dist eq] obtain st' where
    r: "handle_options env (poll_id poll) os' st1 = (Inr (), st')
    \<and> db_sections st' = db_sections st1 \<and> db_images st' = db_images st1 \<and> db_polls st' = db_polls st1
    \<and> opt_id ` set (db_options st) \<subseteq> opt_id ` set (db_options st')
    \<and> (\<forall>r \<in> set (db_options st). \<forall>r' \<in> set (db_options st'). opt_id r' = opt_id r \<longrightarrow>
         (opt_poll r = poll_id poll \<and> opt_id r \<notin> given_ids (map od_id os) \<longrightarrow> opt_deleted r')
         \<and> (opt_id r \<in> given_ids (map od_id os) \<longrightarrow> opt_deleted r' = opt_deleted r))" ..
  then have h: "handle_options env (poll_id poll) os' st1 = (Inr (), st')" by (rule conjunct1)
  have "SectionPollSerializer_update env poll validated parent ordr st = (Inr (poll_id poll), st')"
    using h unfolding w_def st1_def
    by (simp add: SectionPollSerializer_update_def atomic_def o t Let_def)
  then show ?thesis using r
    by (intro exI [of _ st']) (simp add: st1_def w_def)
qed

lemma section_update_validated:
  assumes vi: "validate_images env (Some inst) st imgs = Inr imgs'"
    and vq: "validate_questions env (Some inst) st questions = Inr questions'"
    and si: "sd_images vd = Some imgs'" and sq: "sd_questions vd = Some questions'"
    and di: "distinct (map img_id (db_images st))" and dq: "distinct (map poll_id (db_polls st))"
  shows "\<exists>st'. SectionCreateUpdateSerializer_update env inst vd st = (Inr (sec_id inst), st')
    \<and> db_sections st' = upsert sec_id
         (inst\<lparr>sec_title := sd_title vd, sec_published := sd_published vd\<rparr>) (db_sections st)
    \<and> img_id ` set (db_images st) \<subseteq> img_id ` set (db_images st')
    \<and> poll_id ` set (db_polls st) \<subseteq> poll_id ` set (db_polls st')
    \<and> opt_id ` set (db_options st) \<subseteq> opt_id ` set (db_options st')
    \<and> (\<forall>r \<in> set (db_images st). \<forall>r' \<in> set (db_images st'). img_id r' = img_id r \<longrightarrow>
         (img_section r = sec_id inst \<and> img_id r \<notin> given_ids (map imd_id imgs) \<longrightarrow> img_deleted r')
         \<and> (img_id r \<in> given_ids (map imd_id imgs) \<longrightarrow> img_deleted r' = img_deleted r))
    \<and> (\<forall>r \<in> set (db_polls st). \<forall>r' \<in> set (db_polls st'). poll_id r' = poll_id r \<longrightarrow>
         (poll_section r = sec_id inst \<and> poll_id r \<notin> given_ids (map pd_id questions) \<longrightarrow> poll_deleted r')
         \<and> (poll_id r \<in> given_ids (map pd_id questions) \<longrightarrow> poll_deleted r' = poll_deleted r))"
proof -
  define st1 where "st1 = st\<lparr>db_sections := upsert sec_id
         (inst\<lparr>sec_title := sd_title vd, sec_published := sd_published vd\<rparr>) (db_sections st)\<rparr>"
  have e1: "db_images st1 = db_images st" by (simp add: st1_def)
  from handle_images_validated [OF vi di e1] obtain st2 where
    r2: "handle_images env (sec_id inst) imgs' st1 = (Inr (sec_id inst), st2)
    \<and> db_sections st2 = db_sections st1 \<and> db_options st2 = db_options st1 \<and> db_polls st2 = db_polls st1
    \<and> img_id ` set (db_images st) \<subseteq> img_id ` set (db_images st2)
    \<and> (\<forall>r \<in> set (db_images st). \<forall>r' \<in> set (db_images st2). img_id r' = img_id r \<longrightarrow>
         (img_section r = sec_id inst \<and> img_id r \<notin> given_ids (map imd_id imgs) \<longrightarrow> img_deleted r')
         \<and> (img_id r \<in> given_ids (map imd_id imgs) \<longrightarrow> img_deleted r' = img_deleted r))" ..
  then have h2: "handle_images env (sec_id inst) imgs' st1 = (Inr (sec_id inst), st2)"
    and f2: "db_sections st2 = db_sections st1" "db_options st2 = db_options st1" "db_polls st2 = db_polls st1"
    by simp_all
  have e2: "db_polls st2 = db_polls st" using f2 by (simp add: st1_def)
  from handle_questions_validated [OF vq dq e2] obtain st3 where
    r3: "handle_questions env (sec_id inst) questions' st2 = (Inr (), st3)
    \<and> db_sections st3 = db_sections st2 \<and> db_images st3 = db_images st2
    \<and> opt_id ` set (db_options st2) \<subseteq> opt_id ` set (db_options st3)
    \<and> poll_id ` set (db_polls st) \<subseteq> poll_id ` set (db_polls st3)
    \<and> (\<forall>r \<in> set (db_polls st). \<forall>r' \<in> set (db_polls st3). poll_id r' = poll_id r \<longrightarrow>
         (poll_section r = sec_id inst \<and> poll_id r \<notin> given_ids (map pd_id questions) \<longrightarrow> poll_deleted r')
         \<and> (poll_id r \<in> given_ids (map pd_id questions) \<longrightarrow> poll_deleted r' = poll_deleted r))" ..
  then have h3: "handle_questions env (sec_id inst) questions' st2 = (Inr (), st3)"
    and f3: "db_sections st3 = db_sections st2" "db_images st3 = db_images st2"
    by simp_all
  have "update_body env inst vd st = (Inr (sec_id inst), st3)"
    using h2 h3 unfolding st1_def
    by (simp add: update_body_def si sq Let_def)
  then have u: "SectionCreateUpdateSerializer_update env inst vd st = (Inr (sec_id inst), st3)"
    by (simp add: SectionCreateUpdateSerializer_update_def atomic_def)
  have s: "db_sections st3 = upsert sec_id
         (inst\<lparr>sec_title := sd_title vd, sec_published := sd_published vd\<rparr>) (db_sections st)"
    using f3 f2 by (simp add: st1_def)
  have o: "opt_id ` set (db_options st) \<subseteq> opt_id ` set (db_options st3)"
    using r3 f2 by (simp add: st1_def)
  show ?thesis
    using u s o r2 r3 f3 by (intro exI [of _ st3]) simp
qed

lemma section_create_validated:
  assumes vi: "validate_images env None st imgs = Inr imgs'"
    and vq: "validate_questions env None st questions = Inr questions'"
    and si: "sd_images vd = Some imgs'" and sq: "sd_questions vd = Some questions'"
  shows "\<exists>st'. SectionCreateUpdateSerializer_create env vd st
            = (Inr (next_id (map sec_id (db_sections st))), st')
    \<and> db_sections st' = db_sections st
         @ [\<lparr>sec_id = next_id (map sec_id (db_sections st)), sec_title = sd_title vd,
             sec_published = sd_published vd\<rparr>]
    \<and> img_id ` set (db_images st) \<subseteq> img_id ` set (db_images st')
    \<and> poll_id ` set (db_polls st) \<subseteq> poll_id ` set (db_polls st')
    \<and> opt_id ` set (db_options st) \<subseteq> opt_id ` set (db_options st')"
proof -
  define pk where "pk = next_id (map sec_id (db_sections st))"
  define st1 where "st1 = st\<lparr>db_sections := db_sections st
         @ [\<lparr>sec_id = pk, sec_title = sd_title vd, sec_published = sd_published vd\<rparr>]\<rparr>"
  from vi have vi': "validate_images_from env None st 0 imgs = Inr imgs'"
    by (simp add: validate_images_def)
  from vq have vq': "validate_questions_from env None st 0 questions = Inr questions'"
    by (simp add: validate_questions_def)
  from handle_images_frame [OF vi', of pk st1] obtain i2 where
    h2: "handle_images env pk imgs' st1 = (Inr pk, st1\<lparr>db_images := i2\<rparr>)"
    and k2: "img_id ` set (db_images st1) \<subseteq> img_id ` set i2" by blast
  from handle_questions_frame [OF vq', of pk "st1\<lparr>db_images := i2\<rparr>"] obtain p3 o3 where
    h3: "handle_questions env pk questions' (st1\<lparr>db_images := i2\<rparr>)
            = (Inr (), st1\<lparr>db_images := i2, db_polls := p3, db_options := o3\<rparr>)"
    and k3: "poll_id ` set (db_polls (st1\<lparr>db_images := i2\<rparr>)) \<subseteq> poll_id ` set p3"
      "opt_id ` set (db_options (st1\<lparr>db_images := i2\<rparr>)) \<subseteq> opt_id ` set o3" by auto
  have "create_body env vd st = (Inr pk, st1\<lparr>db_images := i2, db_polls := p3, db_options := o3\<rparr>)"
    using h2 h3 unfolding st1_def pk_def
    by (simp add: create_body_def si sq Let_def)
  then have "SectionCreateUpdateSerializer_create env vd st
      = (Inr pk, st1\<lparr>db_images := i2, db_polls := p3, db_options := o3\<rparr>)"
    by (simp add: SectionCreateUpdateSerializer_create_def atomic_def)
  then show ?thesis using k2 k3 unfolding pk_def
    by (intro exI [of _ "st1\<lparr>db_images := i2, db_polls := p3, db_options := o3\<rparr>"])
      (simp add: st1_def pk_def)
qed

text \<open>
  C5. An update of a section whose payload passed validation succeeds, and in the store it
  leaves every image and every poll that the section had and whose id is absent from the
  incoming array is flagged deleted, while a row whose id the array names keeps its flag;
  an update of a poll whose payload passed validation does the same to the options of the
  poll. No row is removed: every image, poll and option id of the store before the update
  is an id of the store after it, and a soft delete keeps the ids of its table.
\<close>

theorem update_soft_deletes_missing_children:
  "(validate_images env (Some inst) st imgs = Inr imgs'
      \<and> validate_questions env (Some inst) st questions = Inr questions'
      \<and> sd_images vd = Some imgs' \<and> sd_questions vd = Some questions'
      \<and> distinct (map img_id (db_images st)) \<and> distinct (map poll_id (db_polls st)) \<longrightarrow>
      (\<exists>st'. SectionCreateUpdateSerializer_update env inst vd st = (Inr (sec_id inst), st')
         \<and> img_id ` set (db_images st) \<subseteq> img_id ` set (db_images st')
         \<and> poll_id ` set (db_polls st) \<subseteq> poll_id ` set (db_polls st')
         \<and> opt_id ` set (db_options st) \<subseteq> opt_id ` set (db_options st')
         \<and> (\<forall>r \<in> set (db_images st). \<forall>r' \<in> set (db_images st'). img_id r' = img_id r \<longrightarrow>
              (img_section r = sec_id inst \<and> img_id r \<notin> given_ids (map imd_id imgs) \<longrightarrow> img_deleted r')
              \<and> (img_id r \<in> given_ids (map imd_id imgs) \<longrightarrow> img_deleted r' = img_deleted r))
         \<and> (\<forall>r \<in> set (db_polls st). \<forall>r' \<in> set (db_polls st'). poll_id r' = poll_id r \<longrightarrow>
              (poll_section r = sec_id inst \<and> poll_id r \<notin> given_ids (map pd_id questions) \<longrightarrow> poll_deleted r')
              \<and> (poll_id r \<in> given_ids (map pd_id questions) \<longrightarrow> poll_deleted r' = poll_deleted r))))
   \<and> (SectionPollSerializer_is_valid env (Some poll) st pd = Inr validated
      \<and> pd_options pd = Some opts \<and> distinct (map opt_id (db_options st)) \<longrightarrow>
      (\<exists>st'. SectionPollSerializer_update env poll validated parent ordering_kw st
                = (Inr (poll_id poll), st')
         \<and> db_images st' = db_images st
         \<and> poll_id ` set (db_polls st) \<subseteq> poll_id ` set (db_polls st')
         \<and> opt_id ` set (db_options st) \<subseteq> opt_id ` set (db_options st')
         \<and> (\<forall>r \<in> set (db_options st). \<forall>r' \<in> set (db_options st'). opt_id r' = opt_id r \<longrightarrow>
              (opt_poll r = poll_id poll \<and> opt_id r \<notin> given_ids (map od_id opts) \<longrightarrow> opt_deleted r')
              \<and> (opt_id r \<in> given_ids (map od_id opts) \<longrightarrow> opt_deleted r' = opt_deleted r))))
   \<and> map img_id (db_images (image_soft_delete x st)) = map img_id (db_images st)
   \<and> map poll_id (db_polls (poll_soft_delete y st)) = map poll_id (db_polls st)
   \<and> map opt_id (db_options (option_soft_delete z st)) = map opt_id (db_options st)"
proof (intro conjI impI)
  assume a: "validate_images env (Some inst) st imgs = Inr imgs'
      \<and> validate_questions env (Some inst) st questions = Inr questions'
      \<and> sd_images vd = Some imgs' \<and> sd_questions vd = Some questions'
      \<and> distinct (map img_id (db_images st)) \<and> distinct (map poll_id (db_polls st))"
  then have vi: "validate_images env (Some inst) st imgs = Inr imgs'"
    and vq: "validate_questions env (Some inst) st questions = Inr questions'"
    and si: "sd_images vd = Some imgs'" and sq: "sd_questions vd = Some questions'"
    and di: "distinct (map img_id (db_images st))" and dq: "distinct (map poll_id (db_polls st))"
    by simp_all
  from section_update_validated [OF vi vq si sq di dq] obtain st' where
    r: "SectionCreateUpdateSerializer_update env inst vd st = (Inr (sec_id inst), st')
    \<and> db_sections st' = upsert sec_id
         (inst\<lparr>sec_title := sd_title vd, sec_published := sd_published vd\<rparr>) (db_sections st)
    \<and> img_id ` set (db_images st) \<subseteq> img_id ` set (db_images st')
    \<and> poll_id ` set (db_polls st) \<subseteq> poll_id ` set (db_polls st')
    \<and> opt_id ` set (db_options st) \<subseteq> opt_id ` set (db_options st')
    \<and> (\<forall>r \<in> set (db_images st). \<forall>r' \<in> set (db_images st'). img_id r' = img_id r \<longrightarrow>
         (img_section r = sec_id inst \<and> img_id r \<notin> given_ids (map imd_id imgs) \<longrightarrow> img_deleted r')
         \<and> (img_id r \<in> given_ids (map imd_id imgs) \<longrightarrow> img_deleted r' = img_deleted r))
    \<and> (\<forall>r \<in> set (db_polls st). \<forall>r' \<in> set (db_polls st'). poll_id r' = poll_id r \<longrightarrow>
         (poll_section r = sec_id inst \<and> poll_id r \<notin> given_ids (map pd_id questions) \<longrightarrow> poll_deleted r')
         \<and> (poll_id r \<in> given_ids (map pd_id questions) \<longrightarrow> poll_deleted r' = poll_deleted r))" ..
  show "\<exists>st'. SectionCreateUpdateSerializer_update env inst vd st = (Inr (sec_id inst), st')
         \<and> img_id ` set (db_images st) \<subseteq> img_id ` set (db_images st')
         \<and> poll_id ` set (db_polls st) \<subseteq> poll_id ` set (db_polls st')
         \<and> opt_id ` set (db_options st) \<subseteq> opt_id ` set (db_options st')
         \<and> (\<forall>r \<in> set (db_images st). \<forall>r' \<in> set (db_images st'). img_id r' = img_id r \<longrightarrow>
              (img_section r = sec_id inst \<and> img_id r \<notin> given_ids (map imd_id imgs) \<longrightarrow> img_deleted r')
              \<and> (img_id r \<in> given_ids (map imd_id imgs) \<longrightarrow> img_deleted r' = img_deleted r))
         \<and> (\<forall>r \<in> set (db_polls st). \<forall>r' \<in> set (db_polls st'). poll_id r' = poll_id r \<longrightarrow>
              (poll_section r = sec_id inst \<and> poll_id r \<notin> given_ids (map pd_id questions) \<longrightarrow> poll_deleted r')
              \<and> (poll_id r \<in> given_ids (map pd_id questions) \<longrightarrow> poll_deleted r' = poll_deleted r))"
    by (rule exI [of _ st']) (intro conjI r [THEN conjunct1]
        r [THEN conjunct2, THEN conjunct2, THEN conjunct1]
        r [THEN conjunct2, THEN conjunct2, THEN conjunct2, THEN conjunct1]
        r [THEN conjunct2, THEN conjunct2, THEN conjunct2, THEN conjunct2, THEN conjunct1]
        r [THEN conjunct2, THEN conjunct2, THEN conjunct2, THEN conjunct2, THEN conjunct2, THEN conjunct1]
        r [THEN conjunct2, THEN conjunct2, THEN conjunct2, THEN conjunct2, THEN conjunct2, THEN conjunct2])
next
  assume a: "SectionPollSerializer_is_valid env (Some poll) st pd = Inr validated
      \<and> pd_options pd = Some opts \<and> distinct (map opt_id (db_options st))"
  then have iv: "SectionPollSerializer_is_valid env (Some poll) st pd = Inr validated"
    and os: "pd_options pd = Some opts" and d: "distinct (map opt_id (db_options st))"
    by simp_all
  from poll_update_validated [OF iv os d, of parent ordering_kw] obtain st' where
    r: "SectionPollSerializer_update env poll validated parent ordering_kw st = (Inr (poll_id poll), st')
    \<and> db_sections st' = db_sections st \<and> db_images st' = db_images st
    \<and> db_polls st' = upsert poll_id
         (poll\<lparr>poll_text := (case pd_text pd of None \<Rightarrow> poll_text poll | Some t \<Rightarrow> t),
               poll_is_independent := pd_is_independent pd,
               poll_section := parent, poll_ordering := ordering_kw\<rparr>) (db_polls st)
    \<and> opt_id ` set (db_options st) \<subseteq> opt_id ` set (db_options st')
    \<and> (\<forall>r \<in> set (db_options st). \<forall>r' \<in> set (db_options st'). opt_id r' = opt_id r \<longrightarrow>
         (opt_poll r = poll_id poll \<and> opt_id r \<notin> given_ids (map od_id opts) \<longrightarrow> opt_deleted r')
         \<and> (opt_id r \<in> given_ids (map od_id opts) \<longrightarrow> opt_deleted r' = opt_deleted r))" ..
  have k: "poll_id ` set (db_polls st) \<subseteq> poll_id ` set (db_polls st')"
  proof -
    have "db_polls st' = upsert poll_id
         (poll\<lparr>poll_text := (case pd_text pd of None \<Rightarrow> poll_text poll | Some t \<Rightarrow> t),
               poll_is_independent := pd_is_independent pd,
               poll_section := parent, poll_ordering := ordering_kw\<rparr>) (db_polls st)"
      using r by simp
    then show ?thesis by (simp only: upsert_keys_image) (rule subset_insertI)
  qed
  show "\<exists>st'. SectionPollSerializer_update env poll validated parent ordering_kw st
                = (Inr (poll_id poll), st')
         \<and> db_images st' = db_images st
         \<and> poll_id ` set (db_polls st) \<subseteq> poll_id ` set (db_polls st')
         \<and> opt_id ` set (db_options st) \<subseteq> opt_id ` set (db_options st')
         \<and> (\<forall>r \<in> set (db_options st). \<forall>r' \<in> set (db_options st'). opt_id r' = opt_id r \<longrightarrow>
              (opt_poll r = poll_id poll \<and> opt_id r \<notin> given_ids (map od_id opts) \<longrightarrow> opt_deleted r')
              \<and> (opt_id r \<in> given_ids (map od_id opts) \<longrightarrow> opt_deleted r' = opt_deleted r))"
    by (rule exI [of _ st']) (intro conjI k r [THEN conjunct1]
        r [THEN conjunct2, THEN conjunct2, THEN conjunct1]
        r [THEN conjunct2, THEN conjunct2, THEN conjunct2, THEN conjunct2, THEN conjunct1]
        r [THEN conjunct2, THEN conjunct2, THEN conjunct2, THEN conjunct2, THEN conjunct2])
next
  show "map img_id (db_images (image_soft_delete x st)) = map img_id (db_images st)"
    by (simp add: image_soft_delete_def o_def)
next
  show "map poll_id (db_polls (poll_soft_delete y st)) = map poll_id (db_polls st)"
    by (simp add: poll_soft_delete_def o_def)
next
  show "map opt_id (db_options (option_soft_delete z st)) = map opt_id (db_options st)"
    by (simp add: option_soft_delete_def o_def)
qed

theorem update_soft_deletes_missing_children_witness:
  "(let imgs' = projr (validate_images example_env (Some example_section) children_store keep_images_1_3);
        questions' = projr (validate_questions example_env (Some example_section) children_store
                        [keep_poll_5_option_3]);
        vd = \<lparr>sd_title = ''s'', sd_published = True, sd_images = Some imgs',
              sd_questions = Some questions'\<rparr>;
        validated = projr (SectionPollSerializer_is_valid example_env (Some example_poll) children_store
                        keep_poll_5_option_3)
    in fst (SectionCreateUpdateSerializer_update example_env example_section vd children_store) = Inr 1
       \<and> map (\<lambda>r. (img_id r, img_deleted r))
            (db_images (snd (SectionCreateUpdateSerializer_update example_env example_section vd children_store)))
           = [(1, False), (2, True), (3, False)]
       \<and> map (\<lambda>r. (poll_id r, poll_deleted r))
            (db_polls (snd (SectionCreateUpdateSerializer_update example_env example_section vd children_store)))
           = [(5, False), (6, True)]
       \<and> map (\<lambda>r. (opt_id r, opt_deleted r))
            (db_options (snd (SectionCreateUpdateSerializer_update example_env example_section vd children_store)))
           = [(3, False), (4, True)]
       \<and> fst (SectionPollSerializer_update example_env example_poll validated 1 1 children_store) = Inr 5
       \<and> map (\<lambda>r. (opt_id r, opt_deleted r))
            (db_options (snd (SectionPollSerializer_update example_env example_poll validated 1 1 children_store)))
           = [(3, False), (4, True)])"
proof -
  let ?imgs' = "projr (validate_images example_env (Some example_section) children_store keep_images_1_3)"
  let ?qs' = "projr (validate_questions example_env (Some example_section) children_store
                        [keep_poll_5_option_3])"
  let ?vd = "\<lparr>sd_title = ''s'', sd_published = True, sd_images = Some ?imgs',
              sd_questions = Some ?qs'\<rparr>"
  let ?validated = "projr (SectionPollSerializer_is_valid example_env (Some example_poll) children_store
                        keep_poll_5_option_3)"
  note defs = validate_images_def validate_questions_def validate_options_def
    keep_images_1_3_def keep_poll_5_option_3_def children_store_def three_images_store_def
    empty_store_def example_section_def example_poll_def example_env_def pk_given_def
    section_images_def section_polls_def poll_options_def validate_question_update_def
    SectionPollSerializer_is_valid_def Let_def
  note run = SectionCreateUpdateSerializer_update_def update_body_def atomic_def
    handle_images_def handle_questions_def handle_options_def
    SectionImageCreateUpdateSerializer_save_def SectionPollSerializer_save_def
    SectionPollSerializer_update_def SectionPollOptionSerializer_save_def upsert_def
    image_soft_delete_def poll_soft_delete_def option_soft_delete_def
  have vi: "validate_images example_env (Some example_section) children_store keep_images_1_3 = Inr ?imgs'"
    by (simp add: defs)
  have vq: "validate_questions example_env (Some example_section) children_store [keep_poll_5_option_3]
              = Inr ?qs'"
    by (simp add: defs)
  have iv: "SectionPollSerializer_is_valid example_env (Some example_poll) children_store
              keep_poll_5_option_3 = Inr ?validated"
    by (simp add: defs)
  have di: "distinct (map img_id (db_images children_store))"
    and dq: "distinct (map poll_id (db_polls children_store))"
    and dd: "distinct (map opt_id (db_options children_store))"
    by (simp_all add: children_store_def three_images_store_def empty_store_def example_poll_def)
  have po: "pd_options keep_poll_5_option_3
      = Some [\<lparr>od_id = Some 3, od_text = Some [(''en'', ''yes'')], od_ordering = None,
                od_serializer = None\<rparr>]"
    by (simp add: keep_poll_5_option_3_def)
  have s: "sec_id example_section = 1" "poll_id example_poll = 5"
    by (simp_all add: example_section_def example_poll_def)
  note t = update_soft_deletes_missing_children
    [where env = example_env and inst = example_section and st = children_store
       and imgs = keep_images_1_3 and imgs' = ?imgs' and questions = "[keep_poll_5_option_3]"
       and questions' = ?qs' and vd = ?vd and poll = example_poll and pd = keep_poll_5_option_3
       and validated = ?validated and parent = 1 and ordering_kw = 1
       and opts = "[\<lparr>od_id = Some 3, od_text = Some [(''en'', ''yes'')], od_ordering = None,
                od_serializer = None\<rparr>]"]
  have h1: "validate_images example_env (Some example_section) children_store keep_images_1_3 = Inr ?imgs'
      \<and> validate_questions example_env (Some example_section) children_store [keep_poll_5_option_3] = Inr ?qs'
      \<and> sd_images ?vd = Some ?imgs' \<and> sd_questions ?vd = Some ?qs'
      \<and> distinct (map img_id (db_images children_store)) \<and> distinct (map poll_id (db_polls children_store))"
    using vi vq di dq by simp
  from mp [OF t [THEN conjunct1] h1] obtain st' where
    "SectionCreateUpdateSerializer_update example_env example_section ?vd children_store
        = (Inr (sec_id example_section), st')" by (elim exE conjE)
  then have a: "fst (SectionCreateUpdateSerializer_update example_env example_section ?vd children_store) = Inr 1"
    by (simp only: fst_conv s)
  have h2: "SectionPollSerializer_is_valid example_env (Some example_poll) children_store
              keep_poll_5_option_3 = Inr ?validated
      \<and> pd_options keep_poll_5_option_3
           = Some [\<lparr>od_id = Some 3, od_text = Some [(''en'', ''yes'')], od_ordering = None,
                od_serializer = None\<rparr>]
      \<and> distinct (map opt_id (db_options children_store))"
    using iv po dd by simp
  from mp [OF t [THEN conjunct2, THEN conjunct1] h2] obtain st'' where
    "SectionPollSerializer_update example_env example_poll ?validated 1 1 children_store
        = (Inr (poll_id example_poll), st'')" by (elim exE conjE)
  then have e: "fst (SectionPollSerializer_update example_env example_poll ?validated 1 1 children_store) = Inr 5"
    by (simp only: fst_conv s)
  have u: "SectionCreateUpdateSerializer_update example_env example_section ?vd children_store
      = (Inr 1, children_store\<lparr>
           db_images := [\<lparr>img_id = 1, img_section = 1, img_ordering = 0, img_deleted = False,
                           img_title = ''A'', img_image = ''a''\<rparr>,
                         \<lparr>img_id = 2, img_section = 1, img_ordering = 1, img_deleted = True,
                           img_title = ''B'', img_image = ''b''\<rparr>,
                         \<lparr>img_id = 3, img_section = 1, img_ordering = 1, img_deleted = False,
                           img_title = ''C'', img_image = ''c''\<rparr>],
           db_polls := [example_poll,
                  \<lparr>poll_id = 6, poll_section = 1, poll_ordering = 2, poll_deleted = True,
                    poll_text = [(''en'', ''Q'')], poll_n_answers = 0, poll_is_independent = False\<rparr>],
           db_options := [\<lparr>opt_id = 3, opt_poll = 5, opt_ordering = 1, opt_deleted = False,
                      opt_text = [(''en'', ''yes'')], opt_n_answers = 0\<rparr>,
                    \<lparr>opt_id = 4, opt_poll = 5, opt_ordering = 2, opt_deleted = True,
                      opt_text = [(''en'', ''no'')], opt_n_answers = 0\<rparr>]\<rparr>)"
    by (simp add: defs run)
  have b: "map (\<lambda>r. (img_id r, img_deleted r))
            (db_images (snd (SectionCreateUpdateSerializer_update example_env example_section ?vd children_store)))
           = [(1, False), (2, True), (3, False)]"
    by (simp add: u)
  have c: "map (\<lambda>r. (poll_id r, poll_deleted r))
            (db_polls (snd (SectionCreateUpdateSerializer_update example_env example_section ?vd children_store)))
           = [(5, False), (6, True)]"
    by (simp add: u example_poll_def)
  have d: "map (\<lambda>r. (opt_id r, opt_deleted r))
            (db_options (snd (SectionCreateUpdateSerializer_update example_env example_section ?vd children_store)))
           = [(3, False), (4, True)]"
    by (simp add: u)
  have f: "map (\<lambda>r. (opt_id r, opt_deleted r))
            (db_options (snd (SectionPollSerializer_update example_env example_poll ?validated 1 1 children_store)))
           = [(3, False), (4, True)]"
    by (simp add: defs run)
  show ?thesis unfolding Let_def by (intro conjI a b c d e f)
qed

subsection \<open>One transaction per create or update\<close>

lemma atomic_failure: "fst (atomic body st) = Inl e \<Longrightarrow> snd (atomic body st) = st"
  by (auto simp: atomic_def split: prod.splits sum.splits)

lemma atomic_success: "atomic body st = (Inr v, st') \<longleftrightarrow> body st = (Inr v, st')"
  by (auto simp: atomic_def split: prod.splits sum.splits)

lemma atomic_raise: "body st = (Inl e, s) \<Longrightarrow> atomic body st = (Inl e, st)"
  by (simp add: atomic_def)

text \<open>
  C1. A create or an update of a section is one transaction in which the section's scalar
  fields are written first, then the images are handled on that store, then the questions
  on the store the images left. When the images raise, or the images succeed and the
  questions raise, the request raises the same exception and the store is exactly the one
  before the request; when both succeed the request succeeds and its store is the one the
  questions left. A request whose images and questions passed validation succeeds, and
  its store holds the section row with the new scalar fields and every image, poll and
  option id of the store before.
\<close>

theorem section_create_update_atomic:
  "(let images_data = (case sd_images vd of None \<Rightarrow> [] | Some xs \<Rightarrow> xs);
        polls_data = (case sd_questions vd of None \<Rightarrow> [] | Some xs \<Rightarrow> xs);
        pk = next_id (map sec_id (db_sections st));
        created = st\<lparr>db_sections := db_sections st
                     @ [\<lparr>sec_id = pk, sec_title = sd_title vd, sec_published = sd_published vd\<rparr>]\<rparr>;
        updated = st\<lparr>db_sections := upsert sec_id
                     (inst\<lparr>sec_title := sd_title vd, sec_published := sd_published vd\<rparr>) (db_sections st)\<rparr>
    in (handle_images env pk images_data created = (Inl e, s2)
          \<longrightarrow> SectionCreateUpdateSerializer_create env vd st = (Inl e, st))
     \<and> (handle_images env pk images_data created = (Inr u, st2)
          \<and> handle_questions env pk polls_data st2 = (Inl e, s3)
          \<longrightarrow> SectionCreateUpdateSerializer_create env vd st = (Inl e, st))
     \<and> (handle_images env pk images_data created = (Inr u, st2)
          \<and> handle_questions env pk polls_data st2 = (Inr v, st3)
          \<longrightarrow> SectionCreateUpdateSerializer_create env vd st = (Inr pk, st3))
     \<and> (handle_images env (sec_id inst) images_data updated = (Inl e, s2)
          \<longrightarrow> SectionCreateUpdateSerializer_update env inst vd st = (Inl e, st))
     \<and> (handle_images env (sec_id inst) images_data updated = (Inr u, st2)
          \<and> handle_questions env (sec_id inst) polls_data st2 = (Inl e, s3)
          \<longrightarrow> SectionCreateUpdateSerializer_update env inst vd st = (Inl e, st))
     \<and> (handle_images env (sec_id inst) images_data updated = (Inr u, st2)
          \<and> handle_questions env (sec_id inst) polls_data st2 = (Inr v, st3)
          \<longrightarrow> SectionCreateUpdateSerializer_update env inst vd st = (Inr (sec_id inst), st3))
     \<and> (fst (SectionCreateUpdateSerializer_create env vd st) = Inl e
          \<longrightarrow> snd (SectionCreateUpdateSerializer_create env vd st) = st)
     \<and> (fst (SectionCreateUpdateSerializer_update env inst vd st) = Inl e
          \<longrightarrow> snd (SectionCreateUpdateSerializer_update env inst vd st) = st)
     \<and> (validate_images env None st imgs = Inr imgs'
          \<and> validate_questions env None st questions = Inr questions'
          \<and> sd_images vd = Some imgs' \<and> sd_questions vd = Some questions'
          \<longrightarrow> (\<exists>st'. SectionCreateUpdateSerializer_create env vd st = (Inr pk, st')
                 \<and> db_sections st' = db_sections created
                 \<and> img_id ` set (db_images st) \<subseteq> img_id ` set (db_images st')
                 \<and> poll_id ` set (db_polls st) \<subseteq> poll_id ` set (db_polls st')
                 \<and> opt_id ` set (db_options st) \<subseteq> opt_id ` set (db_options st')))
     \<and> (validate_images env (Some inst) st imgs = Inr imgs'
          \<and> validate_questions env (Some inst) st questions = Inr questions'
          \<and> sd_images vd = Some imgs' \<and> sd_questions vd = Some questions'
          \<and> distinct (map img_id (db_images st)) \<and> distinct (map poll_id (db_polls st))
          \<longrightarrow> (\<exists>st'. SectionCreateUpdateSerializer_update env inst vd st = (Inr (sec_id inst), st')
                 \<and> db_sections st' = db_sections updated
                 \<and> img_id ` set (db_images st) \<subseteq> img_id ` set (db_images st')
                 \<and> poll_id ` set (db_polls st) \<subseteq> poll_id ` set (db_polls st')
                 \<and> opt_id ` set (db_options st) \<subseteq> opt_id ` set (db_options st'))))"
proof -
  define images_data where "images_data = (case sd_images vd of None \<Rightarrow> [] | Some xs \<Rightarrow> xs)"
  define polls_data where "polls_data = (case sd_questions vd of None \<Rightarrow> [] | Some xs \<Rightarrow> xs)"
  define pk where "pk = next_id (map sec_id (db_sections st))"
  define created where "created = st\<lparr>db_sections := db_sections st
                     @ [\<lparr>sec_id = pk, sec_title = sd_title vd, sec_published = sd_published vd\<rparr>]\<rparr>"
  define updated where "updated = st\<lparr>db_sections := upsert sec_id
                     (inst\<lparr>sec_title := sd_title vd, sec_published := sd_published vd\<rparr>) (db_sections st)\<rparr>"
  note d = images_data_def polls_data_def pk_def created_def updated_def
  have c1: "SectionCreateUpdateSerializer_create env vd st = (Inl e, st)"
    if "handle_images env pk images_data created = (Inl e, s2)"
  proof -
    have "create_body env vd st = (Inl e, s2)"
      using that unfolding d by (simp add: create_body_def Let_def)
    then show ?thesis unfolding SectionCreateUpdateSerializer_create_def by (rule atomic_raise)
  qed
  have c2: "SectionCreateUpdateSerializer_create env vd st = (Inl e, st)"
    if "handle_images env pk images_data created = (Inr u, st2)
          \<and> handle_questions env pk polls_data st2 = (Inl e, s3)"
  proof -
    have "create_body env vd st = (Inl e, s3)"
      using that unfolding d by (simp add: create_body_def Let_def)
    then show ?thesis unfolding SectionCreateUpdateSerializer_create_def by (rule atomic_raise)
  qed
  have c3: "SectionCreateUpdateSerializer_create env vd st = (Inr pk, st3)"
    if "handle_images env pk images_data created = (Inr u, st2)
          \<and> handle_questions env pk polls_data st2 = (Inr v, st3)"
  proof -
    have "create_body env vd st = (Inr pk, st3)"
      using that unfolding d by (simp add: create_body_def Let_def)
    then show ?thesis by (simp add: SectionCreateUpdateSerializer_create_def atomic_success)
  qed
  have u1: "SectionCreateUpdateSerializer_update env inst vd st = (Inl e, st)"
    if "handle_images env (sec_id inst) images_data updated = (Inl e, s2)"
  proof -
    have "update_body env inst vd st = (Inl e, s2)"
      using that unfolding d by (simp add: update_body_def Let_def)
    then show ?thesis unfolding SectionCreateUpdateSerializer_update_def by (rule atomic_raise)
  qed
  have u2: "SectionCreateUpdateSerializer_update env inst vd st = (Inl e, st)"
    if "handle_images env (sec_id inst) images_data updated = (Inr u, st2)
          \<and> handle_questions env (sec_id inst) polls_data st2 = (Inl e, s3)"
  proof -
    have "update_body env inst vd st = (Inl e, s3)"
      using that unfolding d by (simp add: update_body_def Let_def)
    then show ?thesis unfolding SectionCreateUpdateSerializer_update_def by (rule atomic_raise)
  qed
  have u3: "SectionCreateUpdateSerializer_update env inst vd st = (Inr (sec_id inst), st3)"
    if "handle_images env (sec_id inst) images_data updated = (Inr u, st2)
          \<and> handle_questions env (sec_id inst) polls_data st2 = (Inr v, st3)"
  proof -
    have "update_body env inst vd st = (Inr (sec_id inst), st3)"
      using that unfolding d by (simp add: update_body_def Let_def)
    then show ?thesis by (simp add: SectionCreateUpdateSerializer_update_def atomic_success)
  qed
  have f1: "snd (SectionCreateUpdateSerializer_create env vd st) = st"
    if "fst (SectionCreateUpdateSerializer_create env vd st) = Inl e"
    using that unfolding SectionCreateUpdateSerializer_create_def by (rule atomic_failure)
  have f2: "snd (SectionCreateUpdateSerializer_update env inst vd st) = st"
    if "fst (SectionCreateUpdateSerializer_update env inst vd st) = Inl e"
    using that unfolding SectionCreateUpdateSerializer_update_def by (rule atomic_failure)
  have v1: "\<exists>st'. SectionCreateUpdateSerializer_create env vd st = (Inr pk, st')
                 \<and> db_sections st' = db_sections created
                 \<and> img_id ` set (db_images st) \<subseteq> img_id ` set (db_images st')
                 \<and> poll_id ` set (db_polls st) \<subseteq> poll_id ` set (db_polls st')
                 \<and> opt_id ` set (db_options st) \<subseteq> opt_id ` set (db_options st')"
    if a: "validate_images env None st imgs = Inr imgs'
          \<and> validate_questions env None st questions = Inr questions'
          \<and> sd_images vd = Some imgs' \<and> sd_questions vd = Some questions'"
  proof -
    from a have vi: "validate_images env None st imgs = Inr imgs'"
      and vq: "validate_questions env None st questions = Inr questions'"
      and si: "sd_images vd = Some imgs'" and sq: "sd_questions vd = Some questions'"
      by simp_all
    show ?thesis
      using section_create_validated [OF vi vq si sq] unfolding created_def pk_def by simp
  qed
  have v2: "\<exists>st'. SectionCreateUpdateSerializer_update env inst vd st = (Inr (sec_id inst), st')
                 \<and> db_sections st' = db_sections updated
                 \<and> img_id ` set (db_images st) \<subseteq> img_id ` set (db_images st')
                 \<and> poll_id ` set (db_polls st) \<subseteq> poll_id ` set (db_polls st')
                 \<and> opt_id ` set (db_options st) \<subseteq> opt_id ` set (db_options st')"
    if a: "validate_images env (Some inst) st imgs = Inr imgs'
          \<and> validate_questions env (Some inst) st questions = Inr questions'
          \<and> sd_images vd = Some imgs' \<and> sd_questions vd = Some questions'
          \<and> distinct (map img_id (db_images st)) \<and> distinct (map poll_id (db_polls st))"
  proof -
    from a have vi: "validate_images env (Some inst) st imgs = Inr imgs'"
      and vq: "validate_questions env (Some inst) st questions = Inr questions'"
      and si: "sd_images vd = Some imgs'" and sq: "sd_questions vd = Some questions'"
      and di: "distinct (map img_id (db_images st))" and dq: "distinct (map poll_id (db_polls st))"
      by simp_all
    from section_update_validated [OF vi vq si sq di dq] obtain st' where
      r: "SectionCreateUpdateSerializer_update env inst vd st = (Inr (sec_id inst), st')
    \<and> db_sections st' = upsert sec_id
         (inst\<lparr>sec_title := sd_title vd, sec_published := sd_published vd\<rparr>) (db_sections st)
    \<and> img_id ` set (db_images st) \<subseteq> img_id ` set (db_images st')
    \<and> poll_id ` set (db_polls st) \<subseteq> poll_id ` set (db_polls st')
    \<and> opt_id ` set (db_options st) \<subseteq> opt_id ` set (db_options st')
    \<and> (\<forall>r \<in> set (db_images st). \<forall>r' \<in> set (db_images st'). img_id r' = img_id r \<longrightarrow>
         (img_section r = sec_id inst \<and> img_id r \<notin> given_ids (map imd_id imgs) \<longrightarrow> img_deleted r')
         \<and> (img_id r \<in> given_ids (map imd_id imgs) \<longrightarrow> img_deleted r' = img_deleted r))
    \<and> (\<forall>r \<in> set (db_polls st). \<forall>r' \<in> set (db_polls st'). poll_id r' = poll_id r \<longrightarrow>
         (poll_section r = sec_id inst \<and> poll_id r \<notin> given_ids (map pd_id questions) \<longrightarrow> poll_deleted r')
         \<and> (poll_id r \<in> given_ids (map pd_id questions) \<longrightarrow> poll_deleted r' = poll_deleted r))" ..
    have s: "db_sections st' = db_sections updated"
      using r [THEN conjunct2, THEN conjunct1] by (simp add: updated_def)
    show ?thesis
      by (rule exI [of _ st']) (intro conjI s r [THEN conjunct1]
        r [THEN conjunct2, THEN conjunct2, THEN conjunct1]
        r [THEN conjunct2, THEN conjunct2, THEN conjunct2, THEN conjunct1]
        r [THEN conjunct2, THEN conjunct2, THEN conjunct2, THEN conjunct2, THEN conjunct1])
  qed
  have "(handle_images env pk images_data created = (Inl e, s2)
          \<longrightarrow> SectionCreateUpdateSerializer_create env vd st = (Inl e, st))
     \<and> (handle_images env pk images_data created = (Inr u, st2)
          \<and> handle_questions env pk polls_data st2 = (Inl e, s3)
          \<longrightarrow> SectionCreateUpdateSerializer_create env vd st = (Inl e, st))
     \<and> (handle_images env pk images_data created = (Inr u, st2)
          \<and> handle_questions env pk polls_data st2 = (Inr v, st3)
          \<longrightarrow> SectionCreateUpdateSerializer_create env vd st = (Inr pk, st3))
     \<and> (handle_images env (sec_id inst) images_data updated = (Inl e, s2)
          \<longrightarrow> SectionCreateUpdateSerializer_update env inst vd st = (Inl e, st))
     \<and> (handle_images env (sec_id inst) images_data updated = (Inr u, st2)
          \<and> handle_questions env (sec_id inst) polls_data st2 = (Inl e, s3)
          \<longrightarrow> SectionCreateUpdateSerializer_update env inst vd st = (Inl e, st))
     \<and> (handle_images env (sec_id inst) images_data updated = (Inr u, st2)
          \<and> handle_questions env (sec_id inst) polls_data st2 = (Inr v, st3)
          \<longrightarrow> SectionCreateUpdateSerializer_update env inst vd st = (Inr (sec_id inst), st3))
     \<and> (fst (SectionCreateUpdateSerializer_create env vd st) = Inl e
          \<longrightarrow> snd (SectionCreateUpdateSerializer_create env vd st) = st)
     \<and> (fst (SectionCreateUpdateSerializer_update env inst vd st) = Inl e
          \<longrightarrow> snd (SectionCreateUpdateSerializer_update env inst vd st) = st)
     \<and> (validate_images env None st imgs = Inr imgs'
          \<and> validate_questions env None st questions = Inr questions'
          \<and> sd_images vd = Some imgs' \<and> sd_questions vd = Some questions'
          \<longrightarrow> (\<exists>st'. SectionCreateUpdateSerializer_create env vd st = (Inr pk, st')
                 \<and> db_sections st' = db_sections created
                 \<and> img_id ` set (db_images st) \<subseteq> img_id ` set (db_images st')
                 \<and> poll_id ` set (db_polls st) \<subseteq> poll_id ` set (db_polls st')
                 \<and> opt_id ` set (db_options st) \<subseteq> opt_id ` set (db_options st')))
     \<and> (validate_images env (Some inst) st imgs = Inr imgs'
          \<and> validate_questions env (Some inst) st questions = Inr questions'
          \<and> sd_images vd = Some imgs' \<and> sd_questions vd = Some questions'
          \<and> distinct (map img_id (db_images st)) \<and> distinct (map poll_id (db_polls st))
          \<longrightarrow> (\<exists>st'. SectionCreateUpdateSerializer_update env inst vd st = (Inr (sec_id inst), st')
                 \<and> db_sections st' = db_sections updated
                 \<and> img_id ` set (db_images st) \<subseteq> img_id ` set (db_images st')
                 \<and> poll_id ` set (db_polls st) \<subseteq> poll_id ` set (db_polls st')
                 \<and> opt_id ` set (db_options st) \<subseteq> opt_id ` set (db_options st')))"
    by (rule conjI [OF impI [OF c1] conjI [OF impI [OF c2] conjI [OF impI [OF c3]
          conjI [OF impI [OF u1] conjI [OF impI [OF u2] conjI [OF impI [OF u3]
          conjI [OF impI [OF f1] conjI [OF impI [OF f2] conjI [OF impI [OF v1] impI [OF v2]]]]]]]]]])
  then show ?thesis unfolding Let_def d .
qed

theorem section_create_update_atomic_witness:
  "(let imgs' = projr (validate_images example_env None empty_store [new_image ''A'' None]);
        questions' = projr (validate_questions example_env None empty_store
                        [new_question ''P'' [new_option ''X'' None]]);
        vd = \<lparr>sd_title = ''s'', sd_published = True, sd_images = Some imgs',
              sd_questions = Some questions'\<rparr>;
        failing = \<lparr>pd_id = None, pd_text = None, pd_options = None, pd_is_independent = False,
                   pd_ordering = Some 1,
                   pd_serializer = Some (\<lambda>sec ordering_kw st.
                     (Inl (DatabaseError ''connection lost''),
                      st\<lparr>db_polls := db_polls st @ [example_poll]\<rparr>))\<rparr>;
        vd_failing = \<lparr>sd_title = ''s'', sd_published = True, sd_images = Some imgs',
                      sd_questions = Some [failing]\<rparr>;
        sec = \<lparr>sec_id = 1, sec_title = ''s'', sec_published = True\<rparr>;
        img = \<lparr>img_id = 1, img_section = 1, img_ordering = 0, img_deleted = False,
                img_title = ''A'', img_image = ''content''\<rparr>
    in SectionCreateUpdateSerializer_create example_env vd empty_store
         = (Inr 1, \<lparr>db_sections = [sec], db_images = [img],
                    db_polls = [\<lparr>poll_id = 1, poll_section = 1, poll_ordering = 1, poll_deleted = False,
                                  poll_text = [(''en'', ''P'')], poll_n_answers = 0,
                                  poll_is_independent = False\<rparr>],
                    db_options = [\<lparr>opt_id = 1, opt_poll = 1, opt_ordering = 1, opt_deleted = False,
                                    opt_text = [(''en'', ''X'')], opt_n_answers = 0\<rparr>]\<rparr>)
       \<and> create_body example_env vd_failing empty_store
         = (Inl (DatabaseError ''connection lost''),
            \<lparr>db_sections = [sec], db_images = [img], db_polls = [example_poll], db_options = []\<rparr>)
       \<and> SectionCreateUpdateSerializer_create example_env vd_failing empty_store
         = (Inl (DatabaseError ''connection lost''), empty_store))"
proof -
  let ?imgs' = "projr (validate_images example_env None empty_store [new_image ''A'' None])"
  let ?qs' = "projr (validate_questions example_env None empty_store
                        [new_question ''P'' [new_option ''X'' None]])"
  let ?vd = "\<lparr>sd_title = ''s'', sd_published = True, sd_images = Some ?imgs',
              sd_questions = Some ?qs'\<rparr>"
  let ?failing = "\<lparr>pd_id = None, pd_text = None, pd_options = None, pd_is_independent = False,
                   pd_ordering = Some 1,
                   pd_serializer = Some (\<lambda>sec ordering_kw st.
                     (Inl (DatabaseError ''connection lost''),
                      st\<lparr>db_polls := db_polls st @ [example_poll]\<rparr>))\<rparr>"
  let ?vdf = "\<lparr>sd_title = ''s'', sd_published = True, sd_images = Some ?imgs',
                      sd_questions = Some [?failing]\<rparr>"
  let ?sec = "\<lparr>sec_id = 1, sec_title = ''s'', sec_published = True\<rparr>"
  let ?img = "\<lparr>img_id = 1, img_section = 1, img_ordering = 0, img_deleted = False,
                img_title = ''A'', img_image = ''content''\<rparr>"
  let ?st1 = "\<lparr>db_sections = [?sec], db_images = [], db_polls = [], db_options = []\<rparr>"
  let ?st2 = "\<lparr>db_sections = [?sec], db_images = [?img], db_polls = [], db_options = []\<rparr>"
  let ?s3 = "\<lparr>db_sections = [?sec], db_images = [?img], db_polls = [example_poll], db_options = []\<rparr>"
  note defs = validate_images_def validate_questions_def validate_options_def
    new_image_def new_question_def new_option_def empty_store_def example_env_def pk_given_def
    SectionPollSerializer_is_valid_def Let_def
  note run = handle_images_def handle_questions_def handle_options_def
    SectionImageCreateUpdateSerializer_save_def SectionPollSerializer_save_def
    SectionPollSerializer_create_def SectionPollOptionSerializer_save_def atomic_def
    section_images_def section_polls_def poll_options_def next_id_def
  have a: "SectionCreateUpdateSerializer_create example_env ?vd empty_store
         = (Inr 1, \<lparr>db_sections = [?sec], db_images = [?img],
                    db_polls = [\<lparr>poll_id = 1, poll_section = 1, poll_ordering = 1, poll_deleted = False,
                                  poll_text = [(''en'', ''P'')], poll_n_answers = 0,
                                  poll_is_independent = False\<rparr>],
                    db_options = [\<lparr>opt_id = 1, opt_poll = 1, opt_ordering = 1, opt_deleted = False,
                                    opt_text = [(''en'', ''X'')], opt_n_answers = 0\<rparr>]\<rparr>)"
  proof -
    let ?st3 = "\<lparr>db_sections = [?sec], db_images = [?img],
                    db_polls = [\<lparr>poll_id = 1, poll_section = 1, poll_ordering = 1, poll_deleted = False,
                                  poll_text = [(''en'', ''P'')], poll_n_answers = 0,
                                  poll_is_independent = False\<rparr>],
                    db_options = [\<lparr>opt_id = 1, opt_poll = 1, opt_ordering = 1, opt_deleted = False,
                                    opt_text = [(''en'', ''X'')], opt_n_answers = 0\<rparr>]\<rparr>"
    have i: "handle_images example_env 1 ?imgs' ?st1 = (Inr 1, ?st2)"
      by (simp add: defs run)
    have q: "handle_questions example_env 1 ?qs' ?st2 = (Inr (), ?st3)"
      by (simp add: defs run)
    have "handle_images example_env 1 ?imgs' ?st1 = (Inr 1, ?st2)
          \<and> handle_questions example_env 1 ?qs' ?st2 = (Inr (), ?st3)
          \<longrightarrow> SectionCreateUpdateSerializer_create example_env ?vd empty_store = (Inr 1, ?st3)"
      using section_create_update_atomic
        [where env = example_env and vd = ?vd and st = empty_store and ?st2.0 = ?st2 and ?st3.0 = ?st3
           and u = 1 and v = "()",
         unfolded Let_def, THEN conjunct2, THEN conjunct2, THEN conjunct1]
      by (simp add: empty_store_def next_id_def)
    from mp [OF this conjI [OF i q]] show ?thesis .
  qed
  have b: "create_body example_env ?vdf empty_store = (Inl (DatabaseError ''connection lost''), ?s3)"
    by (simp add: create_body_def defs run)
  have hi: "handle_images example_env 1 ?imgs' ?st1 = (Inr 1, ?st2)"
    by (simp add: defs run)
  have hq: "handle_questions example_env 1 [?failing] ?st2
              = (Inl (DatabaseError ''connection lost''), ?s3)"
    by (simp add: defs run)
  have t: "handle_images example_env 1 ?imgs' ?st1 = (Inr 1, ?st2)
          \<and> handle_questions example_env 1 [?failing] ?st2 = (Inl (DatabaseError ''connection lost''), ?s3)
          \<longrightarrow> SectionCreateUpdateSerializer_create example_env ?vdf empty_store
                = (Inl (DatabaseError ''connection lost''), empty_store)"
    using section_create_update_atomic
      [where env = example_env and vd = ?vdf and st = empty_store and ?st2.0 = ?st2 and ?s3.0 = ?s3
         and u = 1 and e = "DatabaseError ''connection lost''",
       unfolded Let_def, THEN conjunct2, THEN conjunct1]
    by (simp add: empty_store_def next_id_def)
  have c: "SectionCreateUpdateSerializer_create example_env ?vdf empty_store
         = (Inl (DatabaseError ''connection lost''), empty_store)"
    by (rule mp [OF t conjI [OF hi hq]])
  show ?thesis unfolding Let_def by (intro conjI a b c)
qed

end
